theory Spec2Isabelle
  imports Main "HOL-Library.AList" "HOL-Library.Multiset" "HOL-Library.Sublist"
begin

section \<open>JavaScript values used by the command-line tool\<close>

text \<open>
  The repository holds three revisions of the one script \<^verbatim>\<open>create-shiny-react-app\<close>:
  \<^item> the ES-module revision in \<^verbatim>\<open>src/unnamed/part_001\<close> (backends \<^verbatim>\<open>r\<close>, \<^verbatim>\<open>py\<close>; side-file
    \<^verbatim>\<open>package-custom.json\<close>), whose definitions carry the suffix \<open>_esm\<close>;
  \<^item> the CommonJS revision in \<^verbatim>\<open>src/unnamed/part_002\<close> with a side-file
    \<^verbatim>\<open>package-config.json\<close> (backends \<^verbatim>\<open>r\<close>, \<^verbatim>\<open>py\<close>, \<^verbatim>\<open>both\<close>), suffix \<open>_cfg\<close>;
  \<^item> the earliest CommonJS revision in \<^verbatim>\<open>src/unnamed/part_003\<close>, which computes the build
    scripts inline, suffix \<open>_inl\<close>.
  Functions that are literally the same in several revisions are modelled once.

  Strings are lists of code units; a \<^typ>\<open>char\<close> stands for a code unit below 256.
  Library functions of the JavaScript runtime whose result the script only passes on
  (\<^verbatim>\<open>JSON.parse\<close>, \<^verbatim>\<open>JSON.stringify\<close>, \<^verbatim>\<open>localeCompare\<close>, case conversion,
  \<^verbatim>\<open>path.resolve\<close>, regular-expression replacement) are fields of a record
  \<open>runtime\<close>, so every theorem holds for whatever these functions compute.
\<close>

datatype json =
    JNull
  | JBool bool
  | JNum string
  | JStr string
  | JArr "json list"
  | JObj "(string \<times> json) list"

text \<open>
  A number is held as the text \<^verbatim>\<open>String(x)\<close> prints for it, so zero (of either sign) is
  \<open>JNum ''0''\<close>. A value read from a property is \<open>None\<close> when JavaScript yields
  \<^verbatim>\<open>undefined\<close>.
\<close>

fun truthy :: "json option \<Rightarrow> bool" where
  "truthy None = False"
| "truthy (Some JNull) = False"
| "truthy (Some (JBool b)) = b"
| "truthy (Some (JNum x)) = (x \<noteq> ''0'')"
| "truthy (Some (JStr s)) = (s \<noteq> [])"
| "truthy (Some (JArr xs)) = True"
| "truthy (Some (JObj ps)) = True"

datatype exn =
    TypeError
  | SyntaxError
  | ENOENT
  | ENOTDIR
  | EISDIR
  | EEXIST
  | PackageNotFound

type_synonym path = "string list"

record runtime =
  JSON_parse :: "string \<Rightarrow> json option"
  JSON_stringify :: "json \<Rightarrow> string"
  localeCompare :: "string \<Rightarrow> string \<Rightarrow> int"
  toUpperCase :: "string \<Rightarrow> string"
  toLowerCase :: "string \<Rightarrow> string"
  path_resolve :: "string \<Rightarrow> path"
  dirname :: path
  require_resolve :: "path option"
  String_replace :: "string \<Rightarrow> string \<Rightarrow> string \<Rightarrow> string"

subsection \<open>String helpers\<close>

text \<open>\<^verbatim>\<open>s.split(c)\<close> for a one-character separator.\<close>

fun split_on :: "char \<Rightarrow> string \<Rightarrow> string list" where
  "split_on c [] = [[]]"
| "split_on c (x # xs) =
     (if x = c then [] # split_on c xs
      else (case split_on c xs of
              [] \<Rightarrow> [[x]]
            | p # ps \<Rightarrow> (x # p) # ps))"

text \<open>\<^verbatim>\<open>parts.join(sep)\<close>.\<close>

fun join :: "string \<Rightarrow> string list \<Rightarrow> string" where
  "join sep [] = []"
| "join sep [p] = p"
| "join sep (p # q # ps) = p @ sep @ join sep (q # ps)"

text \<open>The decimal numeral of a natural number, as \<^verbatim>\<open>String(i)\<close> prints an array index.\<close>

fun digit_char :: "nat \<Rightarrow> char" where
  "digit_char n = char_of (48 + n mod 10)"

fun string_of_nat :: "nat \<Rightarrow> string" where
  "string_of_nat n = (if n < 10 then [digit_char n] else string_of_nat (n div 10) @ [digit_char n])"

declare string_of_nat.simps [simp del]

subsection \<open>parseInt\<close>

text \<open>
  \<^verbatim>\<open>parseInt(s)\<close> with no radix: leading white space is dropped, then an optional sign,
  then an optional \<^verbatim>\<open>0x\<close>/\<^verbatim>\<open>0X\<close> prefix (radix 16, otherwise radix 10), then the longest
  run of digits of the radix. No digit gives \<^verbatim>\<open>NaN\<close>, modelled as \<open>None\<close>. The result is
  an integer here; the script only subtracts one and compares with a list length, which
  the rounding of very long numerals to a double does not change.
\<close>

definition is_white_space :: "char \<Rightarrow> bool" where
  "is_white_space c = ((of_char c :: nat) \<in> {9, 10, 11, 12, 13, 32, 160})"

definition digit_value :: "char \<Rightarrow> nat option" where
  "digit_value c =
     (let n = (of_char c :: nat) in
      if 48 \<le> n \<and> n \<le> 57 then Some (n - 48)
      else if 97 \<le> n \<and> n \<le> 122 then Some (n - 87)
      else if 65 \<le> n \<and> n \<le> 90 then Some (n - 55)
      else None)"

definition is_digit_of :: "nat \<Rightarrow> char \<Rightarrow> bool" where
  "is_digit_of radix c = (case digit_value c of None \<Rightarrow> False | Some d \<Rightarrow> d < radix)"

fun digits_value :: "nat \<Rightarrow> int \<Rightarrow> string \<Rightarrow> int" where
  "digits_value radix acc [] = acc"
| "digits_value radix acc (c # cs) =
     digits_value radix
       (acc * int radix + (case digit_value c of None \<Rightarrow> 0 | Some d \<Rightarrow> int d)) cs"

definition strip_sign :: "string \<Rightarrow> int \<times> string" where
  "strip_sign s =
     (case s of
        [] \<Rightarrow> (1, [])
      | c # cs \<Rightarrow> if c = CHR ''-'' then (- 1, cs) else if c = CHR ''+'' then (1, cs) else (1, s))"

definition strip_prefix :: "string \<Rightarrow> nat \<times> string" where
  "strip_prefix s =
     (case s of
        c # d # cs \<Rightarrow>
          if c = CHR ''0'' \<and> (d = CHR ''x'' \<or> d = CHR ''X'') then (16, cs) else (10, s)
      | _ \<Rightarrow> (10, s))"

definition parseInt :: "string \<Rightarrow> int option" where
  "parseInt s =
     (let (sign, s1) = strip_sign (dropWhile is_white_space s);
          (radix, s2) = strip_prefix s1;
          z = takeWhile (is_digit_of radix) s2
      in if z = [] then None else Some (sign * digits_value radix 0 z))"

section \<open>The file system\<close>

text \<open>
  A file system is an association list from absolute paths (lists of segments) to
  entries; the root \<open>[]\<close> is a directory and is not stored. The order of the list is the
  order in which \<^verbatim>\<open>readdirSync\<close> reports the children of a directory. Symbolic links
  are not modelled.
\<close>

datatype entry = File string | Dir

type_synonym filesystem = "(path \<times> entry) list"

definition lookup :: "filesystem \<Rightarrow> path \<Rightarrow> entry option" where
  "lookup fs p = (if p = [] then Some Dir else map_of fs p)"

definition existsSync :: "filesystem \<Rightarrow> path \<Rightarrow> bool" where
  "existsSync fs p = (lookup fs p \<noteq> None)"

definition isDirectory :: "filesystem \<Rightarrow> path \<Rightarrow> exn + bool" where
  "isDirectory fs p = (case lookup fs p of None \<Rightarrow> Inl ENOENT | Some e \<Rightarrow> Inr (e = Dir))"

definition children :: "filesystem \<Rightarrow> path \<Rightarrow> string list" where
  "children fs p = map (last \<circ> fst) (filter (\<lambda>(q, e). q \<noteq> [] \<and> butlast q = p) fs)"

definition readdirSync :: "filesystem \<Rightarrow> path \<Rightarrow> exn + string list" where
  "readdirSync fs p =
     (case lookup fs p of
        None \<Rightarrow> Inl ENOENT
      | Some (File c) \<Rightarrow> Inl ENOTDIR
      | Some Dir \<Rightarrow> Inr (children fs p))"

definition readFileSync :: "filesystem \<Rightarrow> path \<Rightarrow> exn + string" where
  "readFileSync fs p =
     (case lookup fs p of
        None \<Rightarrow> Inl ENOENT
      | Some Dir \<Rightarrow> Inl EISDIR
      | Some (File c) \<Rightarrow> Inr c)"

definition writeFileSync :: "filesystem \<Rightarrow> path \<Rightarrow> string \<Rightarrow> exn + filesystem" where
  "writeFileSync fs p c =
     (if p = [] then Inl EISDIR
      else case lookup fs (butlast p) of
        None \<Rightarrow> Inl ENOENT
      | Some (File d) \<Rightarrow> Inl ENOTDIR
      | Some Dir \<Rightarrow>
          (case lookup fs p of
             Some Dir \<Rightarrow> Inl EISDIR
           | _ \<Rightarrow> Inr (AList.update p (File c) fs)))"

definition copyFileSync :: "filesystem \<Rightarrow> path \<Rightarrow> path \<Rightarrow> exn + filesystem" where
  "copyFileSync fs src dest =
     (case readFileSync fs src of
        Inl e \<Rightarrow> Inl e
      | Inr c \<Rightarrow> writeFileSync fs dest c)"

definition unlinkSync :: "filesystem \<Rightarrow> path \<Rightarrow> exn + filesystem" where
  "unlinkSync fs p =
     (case lookup fs p of
        None \<Rightarrow> Inl ENOENT
      | Some Dir \<Rightarrow> Inl EISDIR
      | Some (File c) \<Rightarrow> Inr (AList.delete p fs))"

text \<open>
  \<^verbatim>\<open>mkdirSync(p, { recursive: true })\<close>: every missing directory on the way to \<open>p\<close> is
  created; a file on the way is an error.
\<close>

fun mkdir_from :: "filesystem \<Rightarrow> path \<Rightarrow> string list \<Rightarrow> exn + filesystem" where
  "mkdir_from fs done [] = Inr fs"
| "mkdir_from fs done (x # xs) =
     (case lookup fs (done @ [x]) of
        Some (File c) \<Rightarrow> Inl (if xs = [] then EEXIST else ENOTDIR)
      | Some Dir \<Rightarrow> mkdir_from fs (done @ [x]) xs
      | None \<Rightarrow> mkdir_from (AList.update (done @ [x]) Dir fs) (done @ [x]) xs)"

definition mkdirSync_recursive :: "filesystem \<Rightarrow> path \<Rightarrow> exn + filesystem" where
  "mkdirSync_recursive fs p = mkdir_from fs [] p"

text \<open>
  A well-formed file system lists every path once, and the parent of every entry is a
  directory.
\<close>

definition wf_fs :: "filesystem \<Rightarrow> bool" where
  "wf_fs fs =
     (distinct (map fst fs) \<and>
      list_all (\<lambda>(p, e). p \<noteq> [] \<and> lookup fs (butlast p) = Some Dir) fs)"

section \<open>Results, messages and the state of a run\<close>

text \<open>
  A step of the script either completes with a value (\<open>Inr\<close>) or is cut short (\<open>Inl\<close>):
  it throws (\<open>Throw\<close>), ends the process with \<^verbatim>\<open>process.exit\<close> (\<open>Exit\<close>), waits for a
  line of input that never comes (\<open>Await\<close>), or exhausts the recursion budget given to
  \<^verbatim>\<open>copyRecursive\<close> (\<open>OutOfFuel\<close>). \<open>Unmodelled\<close> marks the two inputs whose JavaScript
  semantics this development does not cover: a manifest that is a JSON array, and a
  side-file entry with a key \<^verbatim>\<open>__proto__\<close>. Of the output only errors, warnings and
  re-prompt notices are recorded, in the order printed.
\<close>

datatype abort = Throw exn | Exit nat | Await | OutOfFuel | Unmodelled

datatype message =
    Usage
  | ErrDirectoryExists string
  | ErrTemplatesNotInPackage
  | ErrTemplatesDirNotFound
  | ErrTemplatesNowhere
  | ErrPackageNotFound
  | ErrInvalidChoice nat
  | ErrTemplateNotFoundAt path
  | ErrCreatingApp exn
  | ErrSelectBetween nat nat
  | ErrEnterYesNo
  | WarnPackageConfig
  | WarnClaudeTemplateMissing
  | WarnShinyReactDocMissing
  | InfoDevelopmentTemplates

record world =
  disk :: filesystem
  printed :: "message list"
  stdin :: "string list"

definition print :: "message \<Rightarrow> world \<Rightarrow> world" where
  "print m w = w\<lparr>printed := printed w @ [m]\<rparr>"

section \<open>Template registry\<close>

record template =
  t_id :: string
  t_name :: string
  t_description :: json

definition SKIP_PATHS :: "string list" where
  "SKIP_PATHS = [''node_modules'', ''www'', ''__pycache__'', ''.DS_Store'']"

text \<open>
  Reading a property of a value that \<^verbatim>\<open>JSON.parse\<close> returned. The script reads only the
  properties \<^verbatim>\<open>description\<close>, \<^verbatim>\<open>scripts\<close>, \<^verbatim>\<open>dependencies\<close> and the backend ids this
  way; none of them is a built-in property of arrays, strings, numbers or booleans, so
  only an object can have one. Reading from \<^verbatim>\<open>null\<close> throws. An object lists each of its
  own properties once.
\<close>

definition get_property :: "json \<Rightarrow> string \<Rightarrow> exn + json option" where
  "get_property v k =
     (case v of
        JNull \<Rightarrow> Inl TypeError
      | JObj ps \<Rightarrow> Inr (map_of ps k)
      | _ \<Rightarrow> Inr None)"

text \<open>\<^verbatim>\<open>part.charAt(0).toUpperCase() + part.slice(1)\<close>\<close>

definition capitalize :: "runtime \<Rightarrow> string \<Rightarrow> string" where
  "capitalize rt part = toUpperCase rt (take 1 part) @ drop 1 part"

text \<open>The name computed from the directory name inside the \<^verbatim>\<open>try\<close> block.\<close>

definition name_from_entry :: "runtime \<Rightarrow> string \<Rightarrow> string" where
  "name_from_entry rt entry =
     (let nameParts = drop 1 (split_on CHR ''-'' entry)
      in if length nameParts > 0 then join '' '' (map (capitalize rt) nameParts) else entry)"

definition default_template :: "string \<Rightarrow> template" where
  "default_template entry =
     \<lparr>t_id = entry, t_name = entry, t_description = JStr ''Shiny-React template''\<rparr>"

text \<open>
  The body of the loop for one directory that passed the filter. Every exception
  between \<^verbatim>\<open>try\<close> and \<^verbatim>\<open>catch\<close> leaves both defaults in place.
\<close>

definition template_of :: "runtime \<Rightarrow> filesystem \<Rightarrow> path \<Rightarrow> string \<Rightarrow> template" where
  "template_of rt fs templatesDir entry =
     (let packageJsonPath = templatesDir @ [entry] @ [''package.json'']
      in if existsSync fs packageJsonPath then
           (case readFileSync fs packageJsonPath of
              Inl e \<Rightarrow> default_template entry
            | Inr text \<Rightarrow>
                (case JSON_parse rt text of
                   None \<Rightarrow> default_template entry
                 | Some packageJson \<Rightarrow>
                     (case get_property packageJson ''description'' of
                        Inl e \<Rightarrow> default_template entry
                      | Inr d \<Rightarrow>
                          \<lparr>t_id = entry,
                           t_name = name_from_entry rt entry,
                           t_description =
                             (if truthy d then the d else JStr ''Shiny-React template'')\<rparr>)))
         else default_template entry)"

fun collect_templates ::
  "(string \<Rightarrow> bool) \<Rightarrow> runtime \<Rightarrow> filesystem \<Rightarrow> path \<Rightarrow> string list \<Rightarrow> exn + template list"
where
  "collect_templates skip rt fs templatesDir [] = Inr []"
| "collect_templates skip rt fs templatesDir (entry # entries) =
     (case isDirectory fs (templatesDir @ [entry]) of
        Inl e \<Rightarrow> Inl e
      | Inr d \<Rightarrow>
          (case collect_templates skip rt fs templatesDir entries of
             Inl e \<Rightarrow> Inl e
           | Inr ts \<Rightarrow>
               Inr (if d \<and> \<not> skip entry then template_of rt fs templatesDir entry # ts
                    else ts)))"

text \<open>
  \<^verbatim>\<open>Array.prototype.sort\<close> is stable; for a comparator that is a total preorder its
  result is the stable sorted arrangement, which insertion from the right computes.
\<close>

fun insort_by :: "('a \<Rightarrow> 'a \<Rightarrow> int) \<Rightarrow> 'a \<Rightarrow> 'a list \<Rightarrow> 'a list" where
  "insort_by cmp x [] = [x]"
| "insort_by cmp x (y # ys) = (if cmp x y \<le> 0 then x # y # ys else y # insort_by cmp x ys)"

definition sort_by :: "('a \<Rightarrow> 'a \<Rightarrow> int) \<Rightarrow> 'a list \<Rightarrow> 'a list" where
  "sort_by cmp xs = foldr (insort_by cmp) xs []"

definition compare_ids :: "runtime \<Rightarrow> template \<Rightarrow> template \<Rightarrow> int" where
  "compare_ids rt a b = localeCompare rt (t_id a) (t_id b)"

text \<open>
  The filter on directory names: the two later revisions test membership in
  \<open>SKIP_PATHS\<close>, the earliest one tests \<^verbatim>\<open>entry.startsWith(".")\<close>.
\<close>

definition in_SKIP_PATHS :: "string \<Rightarrow> bool" where
  "in_SKIP_PATHS entry = (entry \<in> set SKIP_PATHS)"

definition starts_with_dot :: "string \<Rightarrow> bool" where
  "starts_with_dot entry = (take 1 entry = ''.'')"

definition getAvailableTemplates ::
  "(string \<Rightarrow> bool) \<Rightarrow> runtime \<Rightarrow> path \<Rightarrow> world \<Rightarrow> (abort + template list) \<times> world"
where
  "getAvailableTemplates skip rt templatesDir w =
     (if \<not> existsSync (disk w) templatesDir then (Inl (Exit 1), print ErrTemplatesDirNotFound w)
      else case readdirSync (disk w) templatesDir of
        Inl e \<Rightarrow> (Inl (Throw e), w)
      | Inr entries \<Rightarrow>
          (case collect_templates skip rt (disk w) templatesDir entries of
             Inl e \<Rightarrow> (Inl (Throw e), w)
           | Inr templates \<Rightarrow> (Inr (sort_by (compare_ids rt) templates), w)))"

section \<open>Materializer\<close>

text \<open>
  \<^verbatim>\<open>copyRecursive(src, dest, { skipBackends })\<close>. The static skip-list is a parameter:
  the two later revisions test \<open>SKIP_PATHS\<close>, the earliest one tests the two names of
  \<open>SKIP_INLINE\<close>. The first argument bounds the depth of the recursion, which the
  source does not bound (a destination inside the source grows while it is read).
\<close>

definition SKIP_INLINE :: "string list" where
  "SKIP_INLINE = [''node_modules'', ''www'']"

fun copyRecursive ::
  "nat \<Rightarrow> string list \<Rightarrow> string list \<Rightarrow> path \<Rightarrow> path \<Rightarrow> world \<Rightarrow> (abort + unit) \<times> world"
and copy_entries ::
  "nat \<Rightarrow> string list \<Rightarrow> string list \<Rightarrow> path \<Rightarrow> path \<Rightarrow> string list \<Rightarrow> world
     \<Rightarrow> (abort + unit) \<times> world"
where
  "copyRecursive 0 skipPaths skipBackends src dest w = (Inl OutOfFuel, w)"
| "copyRecursive (Suc n) skipPaths skipBackends src dest w =
     (if \<not> existsSync (disk w) src then (Inl (Exit 1), print (ErrTemplateNotFoundAt src) w)
      else case isDirectory (disk w) src of
        Inl e \<Rightarrow> (Inl (Throw e), w)
      | Inr True \<Rightarrow>
          (case (if \<not> existsSync (disk w) dest then mkdirSync_recursive (disk w) dest
                 else Inr (disk w)) of
             Inl e \<Rightarrow> (Inl (Throw e), w)
           | Inr fs1 \<Rightarrow>
               (case readdirSync fs1 src of
                  Inl e \<Rightarrow> (Inl (Throw e), w\<lparr>disk := fs1\<rparr>)
                | Inr files \<Rightarrow>
                    copy_entries n skipPaths skipBackends src dest files (w\<lparr>disk := fs1\<rparr>)))
      | Inr False \<Rightarrow>
          (case copyFileSync (disk w) src dest of
             Inl e \<Rightarrow> (Inl (Throw e), w)
           | Inr fs1 \<Rightarrow> (Inr (), w\<lparr>disk := fs1\<rparr>)))"
| "copy_entries n skipPaths skipBackends src dest [] w = (Inr (), w)"
| "copy_entries n skipPaths skipBackends src dest (file # files) w =
     (if file \<in> set skipPaths then copy_entries n skipPaths skipBackends src dest files w
      else if file \<in> set skipBackends then copy_entries n skipPaths skipBackends src dest files w
      else case copyRecursive n skipPaths skipBackends (src @ [file]) (dest @ [file]) w of
        (Inl a, w1) \<Rightarrow> (Inl a, w1)
      | (Inr u, w1) \<Rightarrow> copy_entries n skipPaths skipBackends src dest files w1)"

section \<open>Manifest patcher\<close>

datatype backend = R | Py | Both

fun backend_id :: "backend \<Rightarrow> string" where
  "backend_id R = ''r''"
| "backend_id Py = ''py''"
| "backend_id Both = ''both''"

text \<open>
  The own enumerable properties that \<^verbatim>\<open>{...v}\<close> copies and \<^verbatim>\<open>Object.keys(v)\<close> lists:
  none for \<^verbatim>\<open>undefined\<close>, \<^verbatim>\<open>null\<close>, numbers and booleans, the indexed code units of a
  string, the indexed elements of an array, the properties of an object. Properties are
  kept in insertion order; that JavaScript lists integer-like keys first is not modelled.
\<close>

definition indexed :: "json list \<Rightarrow> (string \<times> json) list" where
  "indexed xs = map (\<lambda>(i, x). (string_of_nat i, x)) (enumerate 0 xs)"

fun spread_properties :: "json option \<Rightarrow> (string \<times> json) list" where
  "spread_properties None = []"
| "spread_properties (Some JNull) = []"
| "spread_properties (Some (JBool b)) = []"
| "spread_properties (Some (JNum x)) = []"
| "spread_properties (Some (JStr s)) = indexed (map (\<lambda>c. JStr [c]) s)"
| "spread_properties (Some (JArr xs)) = indexed xs"
| "spread_properties (Some (JObj ps)) = ps"

text \<open>\<^verbatim>\<open>{ ...a, ...b }\<close>\<close>

definition spread2 :: "json option \<Rightarrow> json option \<Rightarrow> json" where
  "spread2 a b =
     JObj (fold (\<lambda>(k, v). AList.update k v) (spread_properties b) (spread_properties a))"

text \<open>
  \<^verbatim>\<open>packageJson[key] = v\<close>. On \<^verbatim>\<open>null\<close> it throws. On a number, string or boolean it
  throws in an ES module (strict code) and does nothing in a CommonJS script.
\<close>

datatype strictness = Strict | Sloppy

definition assign :: "strictness \<Rightarrow> json \<Rightarrow> string \<Rightarrow> json \<Rightarrow> abort + json" where
  "assign mode obj key v =
     (case obj of
        JNull \<Rightarrow> Inl (Throw TypeError)
      | JObj ps \<Rightarrow> if key = ''__proto__'' then Inl Unmodelled else Inr (JObj (AList.update key v ps))
      | JArr xs \<Rightarrow> Inl Unmodelled
      | _ \<Rightarrow> (case mode of Strict \<Rightarrow> Inl (Throw TypeError) | Sloppy \<Rightarrow> Inr obj))"

text \<open>
  The value of \<^verbatim>\<open>packageJson[key]\<close> as far as a spread sees it: an own property of an
  object. What an object inherits from \<^verbatim>\<open>Object.prototype\<close> has no enumerable property
  of its own and spreads to nothing, like \<^verbatim>\<open>undefined\<close>.
\<close>

definition own_property :: "json \<Rightarrow> string \<Rightarrow> json option" where
  "own_property obj key = (case obj of JObj ps \<Rightarrow> map_of ps key | _ \<Rightarrow> None)"

text \<open>\<^verbatim>\<open>packageJson[key] = { ...packageJson[key], ...value }\<close>\<close>

definition merge_property :: "strictness \<Rightarrow> json \<Rightarrow> string \<Rightarrow> json \<Rightarrow> abort + json" where
  "merge_property mode packageJson key value =
     assign mode packageJson key (spread2 (own_property packageJson key) (Some value))"

text \<open>
  \<^verbatim>\<open>Object.keys(backendConfig).forEach(...)\<close>; \<open>skipKey\<close> is the test \<^verbatim>\<open>key !== "scripts"\<close>
  of the revision that has it.
\<close>

fun merge_properties ::
  "strictness \<Rightarrow> (string \<Rightarrow> bool) \<Rightarrow> json \<Rightarrow> (string \<times> json) list \<Rightarrow> abort + json"
where
  "merge_properties mode skipKey packageJson [] = Inr packageJson"
| "merge_properties mode skipKey packageJson ((key, value) # rest) =
     (if skipKey key then merge_properties mode skipKey packageJson rest
      else case merge_property mode packageJson key value of
        Inl a \<Rightarrow> Inl a
      | Inr packageJson' \<Rightarrow> merge_properties mode skipKey packageJson' rest)"

subsection \<open>The ES-module revision: side-file \<^verbatim>\<open>package-custom.json\<close>\<close>

text \<open>
  The \<^verbatim>\<open>try\<close> block together with its \<^verbatim>\<open>catch\<close>: whatever is thrown inside is replaced
  by a warning, and the manifest object keeps what was assigned before the exception.
\<close>

definition apply_custom_esm ::
  "runtime \<Rightarrow> path \<Rightarrow> backend \<Rightarrow> json \<Rightarrow> world \<Rightarrow> abort + json \<times> world"
where
  "apply_custom_esm rt packageCustomPath selectedBackend packageJson w =
     (case readFileSync (disk w) packageCustomPath of
        Inl e \<Rightarrow> Inr (packageJson, print WarnPackageConfig w)
      | Inr text \<Rightarrow>
          (case JSON_parse rt text of
             None \<Rightarrow> Inr (packageJson, print WarnPackageConfig w)
           | Some packageConfig \<Rightarrow>
               (case get_property packageConfig (backend_id selectedBackend) of
                  Inl e \<Rightarrow> Inr (packageJson, print WarnPackageConfig w)
                | Inr backendConfig \<Rightarrow>
                    (case (if truthy backendConfig
                           then merge_properties Strict (\<lambda>key. False) packageJson
                                  (spread_properties backendConfig)
                           else Inr packageJson) of
                       Inl (Throw e) \<Rightarrow> Inr (packageJson, print WarnPackageConfig w)
                     | Inl a \<Rightarrow> Inl a
                     | Inr packageJson' \<Rightarrow>
                         (case unlinkSync (disk w) packageCustomPath of
                            Inl e \<Rightarrow> Inr (packageJson', print WarnPackageConfig w)
                          | Inr fs1 \<Rightarrow> Inr (packageJson', w\<lparr>disk := fs1\<rparr>))))))"

definition updatePackageJson_esm ::
  "runtime \<Rightarrow> path \<Rightarrow> string \<Rightarrow> backend \<Rightarrow> world \<Rightarrow> (abort + unit) \<times> world"
where
  "updatePackageJson_esm rt targetDir appName selectedBackend w =
     (let packageJsonPath = targetDir @ [''package.json''];
          packageCustomPath = targetDir @ [''package-custom.json'']
      in if existsSync (disk w) packageJsonPath then
           (case readFileSync (disk w) packageJsonPath of
              Inl e \<Rightarrow> (Inl (Throw e), w)
            | Inr text \<Rightarrow>
                (case JSON_parse rt text of
                   None \<Rightarrow> (Inl (Throw SyntaxError), w)
                 | Some packageJson0 \<Rightarrow>
                     (case assign Strict packageJson0 ''name'' (JStr appName) of
                        Inl a \<Rightarrow> (Inl a, w)
                      | Inr packageJson1 \<Rightarrow>
                          (case (if existsSync (disk w) packageCustomPath
                                 then apply_custom_esm rt packageCustomPath selectedBackend
                                        packageJson1 w
                                 else Inr (packageJson1, w)) of
                             Inl a \<Rightarrow> (Inl a, w)
                           | Inr (packageJson2, w1) \<Rightarrow>
                               (case writeFileSync (disk w1) packageJsonPath
                                       (JSON_stringify rt packageJson2) of
                                  Inl e \<Rightarrow> (Inl (Throw e), w1)
                                | Inr fs1 \<Rightarrow> (Inr (), w1\<lparr>disk := fs1\<rparr>))))))
         else (Inr (), w))"

subsection \<open>The CommonJS revision with a side-file \<^verbatim>\<open>package-config.json\<close>\<close>

text \<open>\<^verbatim>\<open>if (backendConfig.scripts) { packageJson.scripts = backendConfig.scripts; }\<close>\<close>

definition replace_scripts :: "json \<Rightarrow> json \<Rightarrow> abort + json" where
  "replace_scripts packageJson backendConfig =
     (case get_property backendConfig ''scripts'' of
        Inl e \<Rightarrow> Inl (Throw e)
      | Inr scripts \<Rightarrow>
          if truthy scripts then assign Sloppy packageJson ''scripts'' (the scripts)
          else Inr packageJson)"

definition apply_config_cfg ::
  "runtime \<Rightarrow> path \<Rightarrow> backend \<Rightarrow> json \<Rightarrow> world \<Rightarrow> abort + json \<times> world"
where
  "apply_config_cfg rt packageConfigPath selectedBackend packageJson w =
     (case readFileSync (disk w) packageConfigPath of
        Inl e \<Rightarrow> Inr (packageJson, print WarnPackageConfig w)
      | Inr text \<Rightarrow>
          (case JSON_parse rt text of
             None \<Rightarrow> Inr (packageJson, print WarnPackageConfig w)
           | Some packageConfig \<Rightarrow>
               (case get_property packageConfig (backend_id selectedBackend) of
                  Inl e \<Rightarrow> Inr (packageJson, print WarnPackageConfig w)
                | Inr backendConfig \<Rightarrow>
                    (case (if truthy backendConfig
                           then (case replace_scripts packageJson (the backendConfig) of
                                   Inl a \<Rightarrow> Inl a
                                 | Inr packageJson' \<Rightarrow>
                                     merge_properties Sloppy (\<lambda>key. key = ''scripts'')
                                       packageJson' (spread_properties backendConfig))
                           else Inr packageJson) of
                       Inl (Throw e) \<Rightarrow> Inr (packageJson, print WarnPackageConfig w)
                     | Inl a \<Rightarrow> Inl a
                     | Inr packageJson' \<Rightarrow>
                         (case unlinkSync (disk w) packageConfigPath of
                            Inl e \<Rightarrow> Inr (packageJson', print WarnPackageConfig w)
                          | Inr fs1 \<Rightarrow> Inr (packageJson', w\<lparr>disk := fs1\<rparr>))))))"

definition updatePackageJson_cfg ::
  "runtime \<Rightarrow> path \<Rightarrow> string \<Rightarrow> backend \<Rightarrow> world \<Rightarrow> (abort + unit) \<times> world"
where
  "updatePackageJson_cfg rt targetDir appName selectedBackend w =
     (let packageJsonPath = targetDir @ [''package.json''];
          packageConfigPath = targetDir @ [''package-config.json'']
      in if existsSync (disk w) packageJsonPath then
           (case readFileSync (disk w) packageJsonPath of
              Inl e \<Rightarrow> (Inl (Throw e), w)
            | Inr text \<Rightarrow>
                (case JSON_parse rt text of
                   None \<Rightarrow> (Inl (Throw SyntaxError), w)
                 | Some packageJson0 \<Rightarrow>
                     (case assign Sloppy packageJson0 ''name'' (JStr appName) of
                        Inl a \<Rightarrow> (Inl a, w)
                      | Inr packageJson1 \<Rightarrow>
                          (case (if existsSync (disk w) packageConfigPath
                                 then apply_config_cfg rt packageConfigPath selectedBackend
                                        packageJson1 w
                                 else Inr (packageJson1, w)) of
                             Inl a \<Rightarrow> (Inl a, w)
                           | Inr (packageJson2, w1) \<Rightarrow>
                               (case writeFileSync (disk w1) packageJsonPath
                                       (JSON_stringify rt packageJson2) of
                                  Inl e \<Rightarrow> (Inl (Throw e), w1)
                                | Inr fs1 \<Rightarrow> (Inr (), w1\<lparr>disk := fs1\<rparr>))))))
         else (Inr (), w))"

subsection \<open>The earliest revision: build scripts computed inline\<close>

definition inline_scripts :: "backend \<Rightarrow> (string \<times> json) list" where
  \<open>inline_scripts selectedBackend =
     (case selectedBackend of
        R \<Rightarrow>
          [(''build'', JStr ''esbuild srcts/main.tsx --bundle --outfile=r/www/main.js --format=esm --minify --alias:react=react && tsc --noEmit''),
           (''watch'', JStr ''concurrently "esbuild srcts/main.tsx --bundle --outfile=r/www/main.js --format=esm --minify --alias:react=react --watch" "tsc --noEmit --watch"''),
           (''clean'', JStr ''rm -rf r/www'')]
      | Py \<Rightarrow>
          [(''build'', JStr ''esbuild srcts/main.tsx --bundle --outfile=py/www/main.js --format=esm --minify --alias:react=react && tsc --noEmit''),
           (''watch'', JStr ''concurrently "esbuild srcts/main.tsx --bundle --outfile=py/www/main.js --format=esm --minify --alias:react=react --watch" "tsc --noEmit --watch"''),
           (''clean'', JStr ''rm -rf py/www'')]
      | Both \<Rightarrow>
          [(''build'', JStr ''concurrently "npm run build-r" "npm run build-py" "tsc --noEmit"''),
           (''watch'', JStr ''concurrently "npm run watch-r" "npm run watch-py" "tsc --noEmit --watch"''),
           (''build-r'', JStr ''esbuild srcts/main.tsx --bundle --outfile=r/www/main.js --format=esm --minify --alias:react=react''),
           (''watch-r'', JStr ''esbuild srcts/main.tsx --bundle --outfile=r/www/main.js --format=esm --minify --alias:react=react --watch''),
           (''build-py'', JStr ''esbuild srcts/main.tsx --bundle --outfile=py/www/main.js --format=esm --minify --alias:react=react''),
           (''watch-py'', JStr ''esbuild srcts/main.tsx --bundle --outfile=py/www/main.js --format=esm --minify --alias:react=react --watch''),
           (''clean'', JStr ''rm -rf r/www py/www'')])\<close>

text \<open>
  \<^verbatim>\<open>if (packageJson.dependencies && packageJson.dependencies["@posit/shiny-react"])\<close>
  followed by the assignment to that property of the dependencies object.
\<close>

definition pin_shiny_react :: "json \<Rightarrow> abort + json" where
  "pin_shiny_react packageJson =
     (case get_property packageJson ''dependencies'' of
        Inl e \<Rightarrow> Inl (Throw e)
      | Inr dependencies \<Rightarrow>
          if truthy dependencies then
            (case get_property (the dependencies) ''@posit/shiny-react'' of
               Inl e \<Rightarrow> Inl (Throw e)
             | Inr current \<Rightarrow>
                 if truthy current then
                   (case assign Sloppy (the dependencies) ''@posit/shiny-react'' (JStr ''^0.0.6'') of
                      Inl a \<Rightarrow> Inl a
                    | Inr dependencies' \<Rightarrow> assign Sloppy packageJson ''dependencies'' dependencies')
                 else Inr packageJson)
          else Inr packageJson)"

definition patch_manifest_inl :: "string \<Rightarrow> backend \<Rightarrow> json \<Rightarrow> abort + json" where
  "patch_manifest_inl appName selectedBackend packageJson0 =
     (case assign Sloppy packageJson0 ''name'' (JStr appName) of
        Inl a \<Rightarrow> Inl a
      | Inr packageJson1 \<Rightarrow>
          (case assign Sloppy packageJson1 ''version'' (JStr ''1.0.0'') of
             Inl a \<Rightarrow> Inl a
           | Inr packageJson2 \<Rightarrow>
               (case pin_shiny_react packageJson2 of
                  Inl a \<Rightarrow> Inl a
                | Inr packageJson3 \<Rightarrow>
                    assign Sloppy packageJson3 ''scripts'' (JObj (inline_scripts selectedBackend)))))"

definition updatePackageJson_inl ::
  "runtime \<Rightarrow> path \<Rightarrow> string \<Rightarrow> backend \<Rightarrow> world \<Rightarrow> (abort + unit) \<times> world"
where
  "updatePackageJson_inl rt targetDir appName selectedBackend w =
     (let packageJsonPath = targetDir @ [''package.json'']
      in if existsSync (disk w) packageJsonPath then
           (case readFileSync (disk w) packageJsonPath of
              Inl e \<Rightarrow> (Inl (Throw e), w)
            | Inr text \<Rightarrow>
                (case JSON_parse rt text of
                   None \<Rightarrow> (Inl (Throw SyntaxError), w)
                 | Some packageJson0 \<Rightarrow>
                     (case patch_manifest_inl appName selectedBackend packageJson0 of
                        Inl a \<Rightarrow> (Inl a, w)
                      | Inr packageJson \<Rightarrow>
                          (case writeFileSync (disk w) packageJsonPath
                                  (JSON_stringify rt packageJson) of
                             Inl e \<Rightarrow> (Inl (Throw e), w)
                           | Inr fs1 \<Rightarrow> (Inr (), w\<lparr>disk := fs1\<rparr>)))))
         else (Inr (), w))"

section \<open>Interactive selector\<close>

text \<open>\<^verbatim>\<open>rl.question\<close>: the next line of standard input; the promise never settles without one.\<close>

definition question :: "world \<Rightarrow> (abort + string) \<times> world" where
  "question w =
     (case stdin w of
        [] \<Rightarrow> (Inl Await, w)
      | line # rest \<Rightarrow> (Inr line, w\<lparr>stdin := rest\<rparr>))"

text \<open>\<^verbatim>\<open>parseInt(answer || dflt) - 1\<close>; \<open>None\<close> is \<^verbatim>\<open>NaN\<close>.\<close>

definition choice_index :: "string \<Rightarrow> string \<Rightarrow> int option" where
  "choice_index answer dflt =
     map_option (\<lambda>n. n - 1) (parseInt (if answer = [] then dflt else answer))"

text \<open>\<^verbatim>\<open>i < 0 || i >= n\<close>: both comparisons are false for \<^verbatim>\<open>NaN\<close>.\<close>

definition out_of_range :: "int option \<Rightarrow> nat \<Rightarrow> bool" where
  "out_of_range i n = (case i of None \<Rightarrow> False | Some k \<Rightarrow> k < 0 \<or> k \<ge> int n)"

text \<open>\<^verbatim>\<open>xs[i]\<close>; \<open>None\<close> is \<^verbatim>\<open>undefined\<close>.\<close>

definition element_at :: "'a list \<Rightarrow> int option \<Rightarrow> 'a option" where
  "element_at xs i =
     (case i of
        None \<Rightarrow> None
      | Some k \<Rightarrow> if 0 \<le> k \<and> k < int (length xs) then Some (xs ! nat k) else None)"

text \<open>
  The template question up to \<^verbatim>\<open>selectedTemplate.id\<close>, which throws on \<^verbatim>\<open>undefined\<close>.
  \<open>dflt\<close> is the string substituted for an empty answer.
\<close>

definition choose_template :: "string \<Rightarrow> template list \<Rightarrow> world \<Rightarrow> (abort + template) \<times> world" where
  "choose_template dflt availableTemplates w =
     (case question w of
        (Inl a, w1) \<Rightarrow> (Inl a, w1)
      | (Inr templateChoice, w1) \<Rightarrow>
          (let choiceIndex = choice_index templateChoice dflt
           in if out_of_range choiceIndex (length availableTemplates)
              then (Inl (Exit 1), print (ErrInvalidChoice (length availableTemplates)) w1)
              else case element_at availableTemplates choiceIndex of
                None \<Rightarrow> (Inl (Throw TypeError), w1)
              | Some selectedTemplate \<Rightarrow> (Inr selectedTemplate, w1)))"

text \<open>
  The backend question up to \<^verbatim>\<open>selectedBackend.id === "r"\<close>, which throws on
  \<^verbatim>\<open>undefined\<close>. The message names the literal upper bound \<open>shown\<close>.
\<close>

definition choose_backend ::
  "string \<Rightarrow> nat \<Rightarrow> backend list \<Rightarrow> world \<Rightarrow> (abort + backend) \<times> world"
where
  "choose_backend dflt shown BACKENDS w =
     (case question w of
        (Inl a, w1) \<Rightarrow> (Inl a, w1)
      | (Inr backendChoice, w1) \<Rightarrow>
          (let backendIndex = choice_index backendChoice dflt
           in if out_of_range backendIndex (length BACKENDS)
              then (Inl (Exit 1), print (ErrInvalidChoice shown) w1)
              else case element_at BACKENDS backendIndex of
                None \<Rightarrow> (Inl (Throw TypeError), w1)
              | Some selectedBackend \<Rightarrow> (Inr selectedBackend, w1)))"

definition skip_backends :: "backend \<Rightarrow> string list" where
  "skip_backends selectedBackend =
     (if backend_id selectedBackend = ''r'' then [''py'']
      else if backend_id selectedBackend = ''py'' then [''r'']
      else [])"

definition BACKENDS_esm :: "backend list" where
  "BACKENDS_esm = [R, Py]"

definition BACKENDS_cjs :: "backend list" where
  "BACKENDS_cjs = [R, Py, Both]"

text \<open>The package-manager loop of the ES-module revision, over the remaining input.\<close>

fun package_manager_loop ::
  "string list \<Rightarrow> message list \<Rightarrow> (abort + string) \<times> string list \<times> message list"
where
  "package_manager_loop [] out = (Inl Await, [], out)"
| "package_manager_loop (packageManagerChoice # rest) out =
     (case choice_index packageManagerChoice ''1'' of
        None \<Rightarrow> package_manager_loop rest (out @ [ErrSelectBetween 1 3])
      | Some pmIndex \<Rightarrow>
          if pmIndex \<ge> 0 \<and> pmIndex \<le> 2
          then (Inr ([''uv'', ''pip'', ''none''] ! nat pmIndex), rest, out)
          else package_manager_loop rest (out @ [ErrSelectBetween 1 3]))"

definition ask_package_manager :: "world \<Rightarrow> (abort + string) \<times> world" where
  "ask_package_manager w =
     (case package_manager_loop (stdin w) (printed w) of
        (r, rest, out) \<Rightarrow> (r, w\<lparr>stdin := rest, printed := out\<rparr>))"

text \<open>The documentation question: numbered in the ES-module revision.\<close>

fun claude_loop_esm ::
  "string list \<Rightarrow> message list \<Rightarrow> (abort + bool) \<times> string list \<times> message list"
where
  "claude_loop_esm [] out = (Inl Await, [], out)"
| "claude_loop_esm (claudeChoice # rest) out =
     (let choiceIndex = choice_index claudeChoice ''1''
      in if choiceIndex = Some 0 then (Inr True, rest, out)
         else if choiceIndex = Some 1 then (Inr False, rest, out)
         else claude_loop_esm rest (out @ [ErrSelectBetween 1 2]))"

definition ask_claude_esm :: "world \<Rightarrow> (abort + bool) \<times> world" where
  "ask_claude_esm w =
     (case claude_loop_esm (stdin w) (printed w) of
        (r, rest, out) \<Rightarrow> (r, w\<lparr>stdin := rest, printed := out\<rparr>))"

text \<open>\<^verbatim>\<open>(Y/n)\<close> with a loop in the revision with \<^verbatim>\<open>package-config.json\<close>.\<close>

fun claude_loop_cfg ::
  "runtime \<Rightarrow> string list \<Rightarrow> message list \<Rightarrow> (abort + bool) \<times> string list \<times> message list"
where
  "claude_loop_cfg rt [] out = (Inl Await, [], out)"
| "claude_loop_cfg rt (includeClaude # rest) out =
     (let lowerResponse = toLowerCase rt includeClaude
      in if lowerResponse = ''n'' \<or> lowerResponse = ''no'' then (Inr False, rest, out)
         else if lowerResponse = ''y'' \<or> lowerResponse = ''yes'' \<or> lowerResponse = []
         then (Inr True, rest, out)
         else claude_loop_cfg rt rest (out @ [ErrEnterYesNo]))"

definition ask_claude_cfg :: "runtime \<Rightarrow> world \<Rightarrow> (abort + bool) \<times> world" where
  "ask_claude_cfg rt w =
     (case claude_loop_cfg rt (stdin w) (printed w) of
        (r, rest, out) \<Rightarrow> (r, w\<lparr>stdin := rest, printed := out\<rparr>))"

text \<open>\<^verbatim>\<open>(y/N)\<close>, asked once, in the earliest revision.\<close>

definition ask_claude_inl :: "runtime \<Rightarrow> world \<Rightarrow> (abort + bool) \<times> world" where
  "ask_claude_inl rt w =
     (case question w of
        (Inl a, w1) \<Rightarrow> (Inl a, w1)
      | (Inr includeClaude, w1) \<Rightarrow>
          (Inr (toLowerCase rt includeClaude = ''y'' \<or> toLowerCase rt includeClaude = ''yes''), w1))"

section \<open>Documentation injector\<close>

text \<open>
  \<open>String_replace rt pat appName text\<close> is \<^verbatim>\<open>text.replace(/pat/g, appName)\<close>, where \<open>pat\<close>
  is the text the regular expression matches.
\<close>

definition write_claude_md ::
  "runtime \<Rightarrow> string \<Rightarrow> path \<Rightarrow> path \<Rightarrow> string \<Rightarrow> world \<Rightarrow> (abort + unit) \<times> world"
where
  "write_claude_md rt pat templatesDir targetDir appName w =
     (let claudeTemplatePath = templatesDir @ [''CLAUDE.md.template''];
          claudeDestPath = targetDir @ [''CLAUDE.md'']
      in if existsSync (disk w) claudeTemplatePath then
           (case readFileSync (disk w) claudeTemplatePath of
              Inl e \<Rightarrow> (Inl (Throw e), w)
            | Inr claudeContent \<Rightarrow>
                (case writeFileSync (disk w) claudeDestPath
                        (String_replace rt pat appName claudeContent) of
                   Inl e \<Rightarrow> (Inl (Throw e), w)
                 | Inr fs1 \<Rightarrow> (Inr (), w\<lparr>disk := fs1\<rparr>)))
         else (Inr (), print WarnClaudeTemplateMissing w))"

definition copy_shiny_react_md :: "path \<Rightarrow> path \<Rightarrow> world \<Rightarrow> (abort + unit) \<times> world" where
  "copy_shiny_react_md templatesDir targetDir w =
     (let shinyReactDocsPath = templatesDir @ [''SHINY-REACT.md''];
          shinyReactDestPath = targetDir @ [''SHINY-REACT.md'']
      in if existsSync (disk w) shinyReactDocsPath then
           (case copyFileSync (disk w) shinyReactDocsPath shinyReactDestPath of
              Inl e \<Rightarrow> (Inl (Throw e), w)
            | Inr fs1 \<Rightarrow> (Inr (), w\<lparr>disk := fs1\<rparr>))
         else (Inr (), print WarnShinyReactDocMissing w))"

section \<open>The main function\<close>

datatype outcome = Exited nat | Uncaught exn | Hung | Exhausted | NotModelled

text \<open>An abort outside the \<^verbatim>\<open>try\<close> block: an exception there is not caught.\<close>

fun outside_try :: "abort \<Rightarrow> outcome" where
  "outside_try (Throw e) = Uncaught e"
| "outside_try (Exit n) = Exited n"
| "outside_try Await = Hung"
| "outside_try OutOfFuel = Exhausted"
| "outside_try Unmodelled = NotModelled"

text \<open>
  \<^verbatim>\<open>try { ... } catch (error) { console.error(...); process.exit(1); } finally { rl.close(); }\<close>:
  a completed block lets the process end with code 0.
\<close>

fun finish :: "(abort + unit) \<times> world \<Rightarrow> outcome \<times> world" where
  "finish (Inr u, w) = (Exited 0, w)"
| "finish (Inl (Throw e), w) = (Exited 1, print (ErrCreatingApp e) w)"
| "finish (Inl a, w) = (outside_try a, w)"

subsection \<open>ES-module revision\<close>

definition generate_esm ::
  "nat \<Rightarrow> runtime \<Rightarrow> string \<Rightarrow> path \<Rightarrow> path \<Rightarrow> template \<Rightarrow> backend \<Rightarrow> bool \<Rightarrow> world
     \<Rightarrow> (abort + unit) \<times> world"
where
  "generate_esm fuel rt appName targetDir templatesDir selectedTemplate selectedBackend
     shouldIncludeClaude w =
     (case copyRecursive fuel SKIP_PATHS (skip_backends selectedBackend)
             (templatesDir @ [t_id selectedTemplate]) targetDir w of
        (Inl a, w1) \<Rightarrow> (Inl a, w1)
      | (Inr u, w1) \<Rightarrow>
          (case updatePackageJson_esm rt targetDir appName selectedBackend w1 of
             (Inl a, w2) \<Rightarrow> (Inl a, w2)
           | (Inr u, w2) \<Rightarrow>
               if shouldIncludeClaude then
                 (case write_claude_md rt ''{project_name}'' templatesDir targetDir appName w2 of
                    (Inl a, w3) \<Rightarrow> (Inl a, w3)
                  | (Inr u, w3) \<Rightarrow> copy_shiny_react_md templatesDir targetDir w3)
               else (Inr (), w2)))"

definition try_block_esm ::
  "nat \<Rightarrow> runtime \<Rightarrow> string \<Rightarrow> path \<Rightarrow> path \<Rightarrow> template list \<Rightarrow> world \<Rightarrow> (abort + unit) \<times> world"
where
  "try_block_esm fuel rt appName targetDir templatesDir availableTemplates w =
     (case choose_template ''2'' availableTemplates w of
        (Inl a, w1) \<Rightarrow> (Inl a, w1)
      | (Inr selectedTemplate, w1) \<Rightarrow>
          (case choose_backend ''3'' 2 BACKENDS_esm w1 of
             (Inl a, w2) \<Rightarrow> (Inl a, w2)
           | (Inr selectedBackend, w2) \<Rightarrow>
               (case (if backend_id selectedBackend = ''py''
                      then (case ask_package_manager w2 of
                              (Inl a, w3) \<Rightarrow> (Inl a, w3)
                            | (Inr pm, w3) \<Rightarrow> (Inr (Some pm), w3))
                      else (Inr None, w2)) of
                  (Inl a, w3) \<Rightarrow> (Inl a, w3)
                | (Inr pythonPackageManager, w3) \<Rightarrow>
                    (case ask_claude_esm w3 of
                       (Inl a, w4) \<Rightarrow> (Inl a, w4)
                     | (Inr shouldIncludeClaude, w4) \<Rightarrow>
                         generate_esm fuel rt appName targetDir templatesDir selectedTemplate
                           selectedBackend shouldIncludeClaude w4))))"

definition main_esm :: "nat \<Rightarrow> runtime \<Rightarrow> string list \<Rightarrow> world \<Rightarrow> outcome \<times> world" where
  "main_esm fuel rt args w =
     (if length args \<noteq> 1 then (Exited 1, print Usage w)
      else let appName = args ! 0; targetDir = path_resolve rt appName
      in if existsSync (disk w) targetDir then (Exited 1, print (ErrDirectoryExists appName) w)
         else let templatesDir = butlast (dirname rt) @ [''templates'']
         in if \<not> existsSync (disk w) templatesDir
            then (Exited 1, print ErrTemplatesNotInPackage w)
            else case getAvailableTemplates in_SKIP_PATHS rt templatesDir w of
              (Inl a, w1) \<Rightarrow> (outside_try a, w1)
            | (Inr availableTemplates, w1) \<Rightarrow>
                finish (try_block_esm fuel rt appName targetDir templatesDir
                          availableTemplates w1))"

subsection \<open>CommonJS revision with \<^verbatim>\<open>package-config.json\<close>\<close>

definition generate_cfg ::
  "nat \<Rightarrow> runtime \<Rightarrow> string \<Rightarrow> path \<Rightarrow> path \<Rightarrow> template \<Rightarrow> backend \<Rightarrow> bool \<Rightarrow> world
     \<Rightarrow> (abort + unit) \<times> world"
where
  "generate_cfg fuel rt appName targetDir templatesDir selectedTemplate selectedBackend
     shouldIncludeClaude w =
     (case copyRecursive fuel SKIP_PATHS (skip_backends selectedBackend)
             (templatesDir @ [t_id selectedTemplate]) targetDir w of
        (Inl a, w1) \<Rightarrow> (Inl a, w1)
      | (Inr u, w1) \<Rightarrow>
          (case updatePackageJson_cfg rt targetDir appName selectedBackend w1 of
             (Inl a, w2) \<Rightarrow> (Inl a, w2)
           | (Inr u, w2) \<Rightarrow>
               if shouldIncludeClaude
               then write_claude_md rt ''hello-world-app'' templatesDir targetDir appName w2
               else (Inr (), w2)))"

definition try_block_cfg ::
  "nat \<Rightarrow> runtime \<Rightarrow> string \<Rightarrow> path \<Rightarrow> path \<Rightarrow> template list \<Rightarrow> world \<Rightarrow> (abort + unit) \<times> world"
where
  "try_block_cfg fuel rt appName targetDir templatesDir availableTemplates w =
     (case choose_template ''1'' availableTemplates w of
        (Inl a, w1) \<Rightarrow> (Inl a, w1)
      | (Inr selectedTemplate, w1) \<Rightarrow>
          (case choose_backend ''3'' 3 BACKENDS_cjs w1 of
             (Inl a, w2) \<Rightarrow> (Inl a, w2)
           | (Inr selectedBackend, w2) \<Rightarrow>
               (case ask_claude_cfg rt w2 of
                  (Inl a, w3) \<Rightarrow> (Inl a, w3)
                | (Inr shouldIncludeClaude, w3) \<Rightarrow>
                    generate_cfg fuel rt appName targetDir templatesDir selectedTemplate
                      selectedBackend shouldIncludeClaude w3)))"

definition main_cfg :: "nat \<Rightarrow> runtime \<Rightarrow> string list \<Rightarrow> world \<Rightarrow> outcome \<times> world" where
  "main_cfg fuel rt args w =
     (if length args \<noteq> 1 then (Exited 1, print Usage w)
      else let appName = args ! 0; targetDir = path_resolve rt appName
      in if existsSync (disk w) targetDir then (Exited 1, print (ErrDirectoryExists appName) w)
         else let templatesDir = butlast (dirname rt) @ [''templates'']
         in if \<not> existsSync (disk w) templatesDir
            then (Exited 1, print ErrTemplatesNotInPackage w)
            else case getAvailableTemplates in_SKIP_PATHS rt templatesDir w of
              (Inl a, w1) \<Rightarrow> (outside_try a, w1)
            | (Inr availableTemplates, w1) \<Rightarrow>
                finish (try_block_cfg fuel rt appName targetDir templatesDir
                          availableTemplates w1))"

subsection \<open>Earliest revision\<close>

text \<open>
  The package is located by \<^verbatim>\<open>require.resolve\<close> (a field of the runtime; \<open>None\<close> when it
  throws), else at \<^verbatim>\<open>node_modules/@posit/shiny-react\<close> under the package directory.
\<close>

definition locate_shiny_react :: "runtime \<Rightarrow> filesystem \<Rightarrow> exn + path" where
  "locate_shiny_react rt files =
     (let cliPackageDir = butlast (dirname rt)
      in case require_resolve rt of
           Some resolvedPath \<Rightarrow> Inr (butlast (butlast resolvedPath))
         | None \<Rightarrow>
             (let directPath = cliPackageDir @ [''node_modules'', ''@posit'', ''shiny-react'']
              in if existsSync files directPath then Inr directPath else Inl PackageNotFound))"

definition generate_inl ::
  "nat \<Rightarrow> runtime \<Rightarrow> string \<Rightarrow> path \<Rightarrow> path \<Rightarrow> template \<Rightarrow> backend \<Rightarrow> bool \<Rightarrow> world
     \<Rightarrow> (abort + unit) \<times> world"
where
  "generate_inl fuel rt appName targetDir templatesDir selectedTemplate selectedBackend
     shouldIncludeClaude w =
     (case copyRecursive fuel SKIP_INLINE (skip_backends selectedBackend)
             (templatesDir @ [t_id selectedTemplate]) targetDir w of
        (Inl a, w1) \<Rightarrow> (Inl a, w1)
      | (Inr u, w1) \<Rightarrow>
          (case updatePackageJson_inl rt targetDir appName selectedBackend w1 of
             (Inl a, w2) \<Rightarrow> (Inl a, w2)
           | (Inr u, w2) \<Rightarrow>
               if shouldIncludeClaude
               then write_claude_md rt ''hello-world-app'' templatesDir targetDir appName w2
               else (Inr (), w2)))"

definition try_block_inl ::
  "nat \<Rightarrow> runtime \<Rightarrow> string \<Rightarrow> path \<Rightarrow> path \<Rightarrow> template list \<Rightarrow> world \<Rightarrow> (abort + unit) \<times> world"
where
  "try_block_inl fuel rt appName targetDir templatesDir availableTemplates w =
     (case choose_template ''1'' availableTemplates w of
        (Inl a, w1) \<Rightarrow> (Inl a, w1)
      | (Inr selectedTemplate, w1) \<Rightarrow>
          (case choose_backend ''3'' 3 BACKENDS_cjs w1 of
             (Inl a, w2) \<Rightarrow> (Inl a, w2)
           | (Inr selectedBackend, w2) \<Rightarrow>
               (case ask_claude_inl rt w2 of
                  (Inl a, w3) \<Rightarrow> (Inl a, w3)
                | (Inr shouldIncludeClaude, w3) \<Rightarrow>
                    generate_inl fuel rt appName targetDir templatesDir selectedTemplate
                      selectedBackend shouldIncludeClaude w3)))"

definition main_inl :: "nat \<Rightarrow> runtime \<Rightarrow> string list \<Rightarrow> world \<Rightarrow> outcome \<times> world" where
  "main_inl fuel rt args w =
     (if length args \<noteq> 1 then (Exited 1, print Usage w)
      else let appName = args ! 0; targetDir = path_resolve rt appName
      in if existsSync (disk w) targetDir then (Exited 1, print (ErrDirectoryExists appName) w)
         else case locate_shiny_react rt (disk w) of
           Inl e \<Rightarrow> (Exited 1, print ErrPackageNotFound w)
         | Inr shinyReactPath \<Rightarrow>
             (let devTemplatesDir = butlast (butlast (dirname rt)) @ [''templates'']
              in case (if existsSync (disk w) (shinyReactPath @ [''templates''])
                       then (Inr (shinyReactPath @ [''templates'']), w)
                       else if existsSync (disk w) devTemplatesDir
                       then (Inr devTemplatesDir, print InfoDevelopmentTemplates w)
                       else (Inl (Exit 1), print ErrTemplatesNowhere w)) of
                   (Inl a, w1) \<Rightarrow> (outside_try a, w1)
                 | (Inr templatesDir, w1) \<Rightarrow>
                     (case getAvailableTemplates starts_with_dot rt templatesDir w1 of
                        (Inl a, w2) \<Rightarrow> (outside_try a, w2)
                      | (Inr availableTemplates, w2) \<Rightarrow>
                          finish (try_block_inl fuel rt appName targetDir templatesDir
                                    availableTemplates w2))))"

section \<open>A concrete runtime and concrete file systems\<close>

text \<open>
  The instances below run the definitions on concrete data. Their runtime compares
  strings by code units, converts the case of ASCII letters, resolves a name without
  separators against the working directory \<^verbatim>\<open>/home\<close>, finds the package entry point at
  \<^verbatim>\<open>/cli/dist/index.js\<close>, prints JSON without indentation,
  and parses the JSON texts of \<open>sample_texts\<close> to the values JavaScript gives them. The
  only other text that the instances hand to the parser is \<^verbatim>\<open>{\<close>, which is not JSON.
\<close>

fun compare_units :: "string \<Rightarrow> string \<Rightarrow> int" where
  "compare_units [] [] = 0"
| "compare_units [] (y # ys) = - 1"
| "compare_units (x # xs) [] = 1"
| "compare_units (x # xs) (y # ys) =
     (if (of_char x :: nat) < of_char y then - 1
      else if (of_char y :: nat) < of_char x then 1
      else compare_units xs ys)"

definition ascii_upper :: "char \<Rightarrow> char" where
  "ascii_upper c =
     (if 97 \<le> (of_char c :: nat) \<and> (of_char c :: nat) \<le> 122 then char_of (of_char c - 32 :: nat)
      else c)"

definition ascii_lower :: "char \<Rightarrow> char" where
  "ascii_lower c =
     (if 65 \<le> (of_char c :: nat) \<and> (of_char c :: nat) \<le> 90 then char_of (of_char c + 32 :: nat)
      else c)"

function replace_all :: "string \<Rightarrow> string \<Rightarrow> string \<Rightarrow> string" where
  "replace_all pat new text =
     (if pat = [] \<or> text = [] then text
      else if take (length pat) text = pat
      then new @ replace_all pat new (drop (length pat) text)
      else hd text # replace_all pat new (tl text))"
  by pat_completeness auto
termination
  by (relation "measure (\<lambda>(pat, new, text). length text)") auto

declare replace_all.simps [simp del]

fun print_json :: "json \<Rightarrow> string" where
  \<open>print_json JNull = ''null''\<close>
| \<open>print_json (JBool b) = (if b then ''true'' else ''false'')\<close>
| \<open>print_json (JNum x) = x\<close>
| \<open>print_json (JStr s) = ''"'' @ s @ ''"''\<close>
| \<open>print_json (JArr xs) = ''['' @ join '','' (map print_json xs) @ '']''\<close>
| \<open>print_json (JObj ps) =
     ''{'' @ join '','' (map (\<lambda>(k, v). ''"'' @ k @ ''":'' @ print_json v) ps) @ ''}''\<close>

definition manifest_text :: string where
  \<open>manifest_text = ''{"name":"template","scripts":{"build":"tsc"}}''\<close>

definition manifest_value :: json where
  "manifest_value =
     JObj [(''name'', JStr ''template''), (''scripts'', JObj [(''build'', JStr ''tsc'')])]"

definition custom_text :: string where
  \<open>custom_text = ''{"r":{"scripts":{"dev":"Rscript r/app.R"}},"py":{"name":"x"}}''\<close>

definition custom_value :: json where
  "custom_value =
     JObj [(''r'', JObj [(''scripts'', JObj [(''dev'', JStr ''Rscript r/app.R'')])]),
           (''py'', JObj [(''name'', JStr ''x'')])]"

definition sample_texts :: "(string \<times> json) list" where
  "sample_texts = [(manifest_text, manifest_value), (custom_text, custom_value)]"

definition sample_runtime :: runtime where
  "sample_runtime =
     \<lparr>JSON_parse = map_of sample_texts,
      JSON_stringify = print_json,
      localeCompare = compare_units,
      toUpperCase = map ascii_upper,
      toLowerCase = map ascii_lower,
      path_resolve = (\<lambda>name. [''home'', name]),
      dirname = [''cli'', ''bin''],
      require_resolve = Some [''cli'', ''dist'', ''index.js''],
      String_replace = replace_all\<rparr>"

text \<open>
  The package directory \<^verbatim>\<open>/cli\<close> with three templates, listed out of order, and a
  working directory \<^verbatim>\<open>/home\<close> that already holds \<^verbatim>\<open>old\<close>. The side-files of the
  template \<^verbatim>\<open>2-scaffold\<close> are not JSON.
\<close>

definition sample_disk :: filesystem where
  \<open>sample_disk =
     [([''cli''], Dir),
      ([''cli'', ''bin''], Dir),
      ([''cli'', ''templates''], Dir),
      ([''cli'', ''templates'', ''plain''], Dir),
      ([''cli'', ''templates'', ''plain'', ''package.json''], File manifest_text),
      ([''cli'', ''templates'', ''2-scaffold''], Dir),
      ([''cli'', ''templates'', ''2-scaffold'', ''package.json''], File manifest_text),
      ([''cli'', ''templates'', ''2-scaffold'', ''package-custom.json''], File ''{''),
      ([''cli'', ''templates'', ''2-scaffold'', ''package-config.json''], File ''{''),
      ([''cli'', ''templates'', ''1-basic''], Dir),
      ([''cli'', ''templates'', ''CLAUDE.md.template''], File ''# {project_name}''),
      ([''cli'', ''templates'', ''1-basic'', ''package.json''], File manifest_text),
      ([''cli'', ''templates'', ''1-basic'', ''package-custom.json''], File custom_text),
      ([''cli'', ''templates'', ''1-basic'', ''package-config.json''], File custom_text),
      ([''cli'', ''templates'', ''1-basic'', ''node_modules''], Dir),
      ([''cli'', ''templates'', ''1-basic'', ''node_modules'', ''x.js''], File ''x''),
      ([''cli'', ''templates'', ''1-basic'', ''r''], Dir),
      ([''cli'', ''templates'', ''1-basic'', ''r'', ''app.R''], File ''R''),
      ([''cli'', ''templates'', ''1-basic'', ''py''], Dir),
      ([''cli'', ''templates'', ''1-basic'', ''py'', ''app.py''], File ''py''),
      ([''cli'', ''templates'', ''1-basic'', ''py'', ''__pycache__''], Dir),
      ([''home''], Dir),
      ([''home'', ''old''], Dir)]\<close>

definition sample_world :: "string list \<Rightarrow> world" where
  "sample_world answers = \<lparr>disk = sample_disk, printed = [], stdin = answers\<rparr>"

text \<open>
  A second comparison, closer to the collation that \<^verbatim>\<open>localeCompare\<close> applies: it ignores
  the control character U+0001 and compares letters without regard to their case. On the
  names of the two directories below it gives what \<^verbatim>\<open>localeCompare\<close> gives: the names
  \<^verbatim>\<open>a\<close> and \<^verbatim>\<open>a\<close> followed by U+0001 compare equal, and \<^verbatim>\<open>a-x\<close> comes before \<^verbatim>\<open>B-y\<close>.
\<close>

definition collation_key :: "string \<Rightarrow> string" where
  "collation_key s = map ascii_lower (filter (\<lambda>c. c \<noteq> CHR 0x01) s)"

definition compare_collated :: "string \<Rightarrow> string \<Rightarrow> int" where
  "compare_collated a b = compare_units (collation_key a) (collation_key b)"

definition collating_runtime :: runtime where
  "collating_runtime = sample_runtime\<lparr>localeCompare := compare_collated\<rparr>"

text \<open>
  A templates directory \<^verbatim>\<open>/t\<close> whose two templates have names that the collation ties,
  and one whose two templates differ in the case of their first letter.
\<close>

definition tie_disk :: filesystem where
  "tie_disk =
     [([''t''], Dir),
      ([''t'', ''a''], Dir),
      ([''t'', [CHR ''a'', CHR 0x01]], Dir)]"

definition case_disk :: filesystem where
  "case_disk =
     [([''t''], Dir),
      ([''t'', ''B-y''], Dir),
      ([''t'', ''a-x''], Dir)]"

section \<open>Notions used to state the properties\<close>

text \<open>A directory entry that passes the filter of the registry.\<close>

definition kept :: "(string \<Rightarrow> bool) \<Rightarrow> filesystem \<Rightarrow> path \<Rightarrow> string \<Rightarrow> bool" where
  "kept skip files dir e = (lookup files (dir @ [e]) = Some Dir \<and> \<not> skip e)"

text \<open>
  The display name in the words of the specification: the segment before the first
  hyphen is stripped, and the remaining hyphen-separated words are title-cased and
  joined by spaces.
\<close>

definition spec_display_name :: "runtime \<Rightarrow> string \<Rightarrow> string" where
  "spec_display_name rt entry =
     join '' '' (map (capitalize rt) (drop 1 (split_on CHR ''-'' entry)))"

text \<open>
  The metadata of a template as far as the registry can use it: the manifest of the
  template directory, read and parsed, unless it is \<^verbatim>\<open>null\<close>.
\<close>

definition metadata :: "runtime \<Rightarrow> filesystem \<Rightarrow> path \<Rightarrow> string \<Rightarrow> json option" where
  "metadata rt files templatesDir entry =
     (case readFileSync files (templatesDir @ [entry] @ [''package.json'']) of
        Inl e \<Rightarrow> None
      | Inr text \<Rightarrow>
          (case JSON_parse rt text of
             None \<Rightarrow> None
           | Some JNull \<Rightarrow> None
           | Some v \<Rightarrow> Some v))"

text \<open>
  The paths a copy into \<open>dest\<close> may create or change: the directories on the way to \<open>dest\<close>
  and the paths below \<open>dest\<close> none of whose segments is a skipped name.
\<close>

definition touched :: "string list \<Rightarrow> string list \<Rightarrow> path \<Rightarrow> path \<Rightarrow> bool" where
  "touched sp sb dest p =
     (prefix p dest \<or> (\<exists>q. p = dest @ q \<and> set q \<inter> (set sp \<union> set sb) = {}))"

text \<open>One file system grows out of another: only such paths differ, and they exist afterwards.\<close>

definition grows :: "string list \<Rightarrow> string list \<Rightarrow> path \<Rightarrow> filesystem \<Rightarrow> filesystem \<Rightarrow> bool" where
  "grows sp sb dest files files' =
     (\<forall>p. lookup files' p = lookup files p \<or>
          (touched sp sb dest p \<and> lookup files' p \<noteq> None))"

text \<open>The names that the manifest patcher and the documentation injector write or delete.\<close>

definition generated_names :: "string list" where
  "generated_names =
     [''package.json'', ''package-custom.json'', ''package-config.json'', ''CLAUDE.md'',
      ''SHINY-REACT.md'']"

text \<open>
  The main function gets as far as its first question, with the templates \<open>ts\<close> on offer:
  the target does not exist and discovery in the templates directory returned \<open>ts\<close>.
\<close>

definition reaches_questions ::
  "(string \<Rightarrow> bool) \<Rightarrow> runtime \<Rightarrow> path \<Rightarrow> string \<Rightarrow> world \<Rightarrow> template list \<Rightarrow> bool"
where
  "reaches_questions skip rt templatesDir appName w ts =
     (\<not> existsSync (disk w) (path_resolve rt appName) \<and>
      fst (getAvailableTemplates skip rt templatesDir w) = Inr ts)"

text \<open>An answer that selects one of \<open>n\<close> options, \<open>dflt\<close> standing in for the empty answer.\<close>

definition valid_choice :: "string \<Rightarrow> string \<Rightarrow> nat \<Rightarrow> bool" where
  "valid_choice answer dflt n =
     (case choice_index answer dflt of None \<Rightarrow> False | Some i \<Rightarrow> 0 \<le> i \<and> i < int n)"

text \<open>
  A JSON file as far as the patcher can use it: read and parsed, unless it is \<^verbatim>\<open>null\<close>
  (whose properties cannot be read).
\<close>

definition usable_json :: "runtime \<Rightarrow> filesystem \<Rightarrow> path \<Rightarrow> json option" where
  "usable_json rt files p =
     (case readFileSync files p of
        Inl e \<Rightarrow> None
      | Inr text \<Rightarrow>
          (case JSON_parse rt text of
             None \<Rightarrow> None
           | Some JNull \<Rightarrow> None
           | Some v \<Rightarrow> Some v))"

text \<open>The entry of the side-file for the selected backend, when the patcher gets one that is truthy.\<close>

definition backend_entry :: "runtime \<Rightarrow> filesystem \<Rightarrow> path \<Rightarrow> backend \<Rightarrow> json option" where
  "backend_entry rt files p selectedBackend =
     (case usable_json rt files p of
        None \<Rightarrow> None
      | Some packageConfig \<Rightarrow>
          (case get_property packageConfig (backend_id selectedBackend) of
             Inl e \<Rightarrow> None
           | Inr backendConfig \<Rightarrow> if truthy backendConfig then backendConfig else None))"

text \<open>
  The state in which the manifest patcher starts when the template \<open>name\<close> of the
  concrete package has been copied to \<^verbatim>\<open>/home/demo\<close> for the backend R.
\<close>

definition copied_world :: "string \<Rightarrow> world" where
  "copied_world name =
     snd (copyRecursive 10 SKIP_PATHS [''py''] [''cli'', ''templates'', name] [''home'', ''demo'']
            (sample_world []))"

text \<open>
  The bound on the depth of the recursion is enough for the tree below \<open>src\<close>: every path
  at or below \<open>src\<close> is less than \<open>n\<close> segments longer than \<open>src\<close>.
\<close>

definition fits :: "nat \<Rightarrow> filesystem \<Rightarrow> path \<Rightarrow> bool" where
  "fits n files src =
     (0 < n \<and> list_all (\<lambda>(p, e). prefix src p \<longrightarrow> length p < length src + n) files)"

section \<open>Properties of the file system and the registry\<close>

lemma lookup_cong: "map_of fs1 = map_of fs2 \<Longrightarrow> lookup fs1 = lookup fs2"
  by (simp add: lookup_def fun_eq_iff)

lemma readFileSync_cong: "lookup fs1 = lookup fs2 \<Longrightarrow> readFileSync fs1 = readFileSync fs2"
  by (simp add: readFileSync_def fun_eq_iff)

lemma existsSync_cong: "lookup fs1 = lookup fs2 \<Longrightarrow> existsSync fs1 = existsSync fs2"
  by (simp add: existsSync_def fun_eq_iff)

lemma template_of_cong:
  "lookup fs1 = lookup fs2 \<Longrightarrow> template_of rt fs1 dir e = template_of rt fs2 dir e"
  by (simp add: template_of_def existsSync_cong [of fs1 fs2] readFileSync_cong [of fs1 fs2]
        cong: if_cong)

lemma t_id_template_of [simp]: "t_id (template_of rt files dir e) = e"
  by (simp add: template_of_def default_template_def Let_def split: sum.splits option.splits)

lemma child_exists:
  assumes "e \<in> set (children files dir)"
  shows "map_of files (dir @ [e]) \<noteq> None"
proof -
  from assms obtain q x where qx: "(q, x) \<in> set files" "q \<noteq> []" "butlast q = dir" "e = last q"
    by (auto simp: children_def)
  then have "dir @ [e] = q" using append_butlast_last_id [of q] by simp
  moreover from qx(1) have "map_of files q \<noteq> None"
    by (metis map_of_eq_None_iff fst_conv image_eqI)
  ultimately show ?thesis by simp
qed

lemma collect_templates_eq:
  "\<forall>e \<in> set es. lookup files (dir @ [e]) \<noteq> None \<Longrightarrow>
   collect_templates skip rt files dir es =
     Inr (map (template_of rt files dir) (filter (kept skip files dir) es))"
  by (induction es) (auto simp: isDirectory_def kept_def split: option.splits)

lemma children_exist: "\<forall>e \<in> set (children files dir). lookup files (dir @ [e]) \<noteq> None"
  using child_exists by (auto simp: lookup_def)

lemma set_insort_by [simp]: "set (insort_by cmp x xs) = insert x (set xs)"
  by (induction xs) auto

lemma mset_insort_by [simp]: "mset (insort_by cmp x xs) = add_mset x (mset xs)"
  by (induction xs) auto

lemma mset_sort_by [simp]: "mset (sort_by cmp xs) = mset xs"
  by (induction xs) (auto simp: sort_by_def)

lemma set_sort_by [simp]: "set (sort_by cmp xs) = set xs"
  by (metis mset_sort_by set_mset_mset)

lemma sorted_insort_by:
  assumes total: "\<And>a b. cmp a b \<le> 0 \<or> cmp b a \<le> 0"
      and trans: "\<And>a b c. cmp a b \<le> 0 \<Longrightarrow> cmp b c \<le> 0 \<Longrightarrow> cmp a c \<le> 0"
  shows "sorted_wrt (\<lambda>a b. cmp a b \<le> 0) xs \<Longrightarrow> sorted_wrt (\<lambda>a b. cmp a b \<le> 0) (insort_by cmp x xs)"
proof (induction xs)
  case Nil
  then show ?case by simp
next
  case (Cons y ys)
  show ?case
  proof (cases "cmp x y \<le> 0")
    case True
    with Cons.prems trans show ?thesis by auto
  next
    case False
    with total have "cmp y x \<le> 0" by blast
    with False Cons show ?thesis by auto
  qed
qed

lemma sorted_sort_by:
  assumes total: "\<And>a b. cmp a b \<le> 0 \<or> cmp b a \<le> 0"
      and trans: "\<And>a b c. cmp a b \<le> 0 \<Longrightarrow> cmp b c \<le> 0 \<Longrightarrow> cmp a c \<le> 0"
  shows "sorted_wrt (\<lambda>a b. cmp a b \<le> 0) (sort_by cmp xs)"
proof (induction xs)
  case Nil
  then show ?case by (simp add: sort_by_def)
next
  case (Cons x xs)
  have "sort_by cmp (x # xs) = insort_by cmp x (sort_by cmp xs)" by (simp add: sort_by_def)
  with Cons sorted_insort_by [of cmp, OF total trans] show ?case by simp
qed

lemma sorted_wrt_unique:
  assumes "sorted_wrt le xs" "sorted_wrt le ys" "mset xs = mset ys"
      and "\<And>x y. x \<in> set xs \<Longrightarrow> y \<in> set xs \<Longrightarrow> le x y \<Longrightarrow> le y x \<Longrightarrow> x = y"
  shows "xs = ys"
  using assms
proof (induction xs arbitrary: ys)
  case Nil
  then show ?case by simp
next
  case (Cons x xs)
  then obtain y ys' where ys: "ys = y # ys'" by (cases ys) auto
  have sets: "set (x # xs) = set ys" using Cons.prems(3) by (metis set_mset_mset)
  have "x = y"
  proof (rule ccontr)
    assume neq: "x \<noteq> y"
    with sets ys have "x \<in> set ys'" "y \<in> set xs" by auto
    with Cons.prems(1,2) ys have "le y x" "le x y" by auto
    with Cons.prems(4) [of x y] \<open>y \<in> set xs\<close> neq show False by auto
  qed
  with Cons.prems ys have "xs = ys'"
    by (intro Cons.IH) auto
  with \<open>x = y\<close> ys show ?case by simp
qed

lemma kept_cong: "lookup fs1 = lookup fs2 \<Longrightarrow> kept skip fs1 dir = kept skip fs2 dir"
  by (simp add: kept_def fun_eq_iff)

lemma mset_children:
  "mset fs1 = mset fs2 \<Longrightarrow> mset (children fs1 dir) = mset (children fs2 dir)"
  by (simp add: children_def)

lemma map_of_permuted:
  assumes "distinct (map fst fs2)" "mset fs1 = mset fs2"
  shows "map_of fs1 = map_of fs2"
proof -
  from assms(2) have "mset (map fst fs1) = mset (map fst fs2)" by simp
  with assms(1) have "distinct (map fst fs1)" by (metis mset_eq_imp_distinct_iff)
  moreover from assms(2) have "set fs1 = set fs2" by (metis set_mset_mset)
  ultimately show ?thesis using assms(1) by (simp add: map_of_inject_set)
qed

lemma discovered_templates:
  "lookup files dir = Some Dir \<Longrightarrow>
   getAvailableTemplates skip rt dir w0 = (r, w1) \<Longrightarrow> disk w0 = files \<Longrightarrow>
   r = Inr (sort_by (compare_ids rt)
              (map (template_of rt files dir) (filter (kept skip files dir) (children files dir))))
   \<and> w1 = w0"
  using collect_templates_eq [OF children_exist, of skip rt files dir]
  by (auto simp: getAvailableTemplates_def existsSync_def readdirSync_def)


lemma compare_units_total: "compare_units a b \<le> 0 \<or> compare_units b a \<le> 0"
  by (induction a b rule: compare_units.induct) auto

lemma compare_units_antisym: "compare_units a b \<le> 0 \<Longrightarrow> compare_units b a \<le> 0 \<Longrightarrow> a = b"
  by (induction a b rule: compare_units.induct) (auto split: if_splits)

lemma compare_units_trans:
  "compare_units a b \<le> 0 \<Longrightarrow> compare_units b c \<le> 0 \<Longrightarrow> compare_units a c \<le> 0"
proof (induction a arbitrary: b c)
  case Nil
  then show ?case by (cases c) auto
next
  case (Cons x xs)
  from Cons.prems obtain y ys where b: "b = y # ys" by (cases b) auto
  with Cons.prems obtain z zs where c: "c = z # zs" by (cases c) auto
  from Cons.prems Cons.IH [of ys zs] show ?case
    unfolding b c by (auto split: if_splits)
qed


text \<open>The collating comparison is a consistent comparator too.\<close>

lemma compare_collated_total: "compare_collated a b \<le> 0 \<or> compare_collated b a \<le> 0"
  unfolding compare_collated_def by (rule compare_units_total)

lemma compare_collated_trans:
  "compare_collated a b \<le> 0 \<Longrightarrow> compare_collated b c \<le> 0 \<Longrightarrow> compare_collated a c \<le> 0"
  unfolding compare_collated_def by (rule compare_units_trans)


section \<open>Display names\<close>

lemma length_split_on: "length (split_on c s) = Suc (length (filter (\<lambda>x. x = c) s))"
  by (induction s) (auto split: list.splits)

lemma split_on_hyphen: "drop 1 (split_on c s) \<noteq> [] \<longleftrightarrow> c \<in> set s"
proof -
  have "drop 1 (split_on c s) \<noteq> [] \<longleftrightarrow> length (split_on c s) > 1" by auto
  also have "\<dots> \<longleftrightarrow> filter (\<lambda>x. x = c) s \<noteq> []" by (simp add: length_split_on)
  also have "\<dots> \<longleftrightarrow> c \<in> set s" by (auto simp: filter_empty_conv)
  finally show ?thesis .
qed

lemma name_from_entry_eq:
  "name_from_entry rt entry =
     (if CHR ''-'' \<in> set entry then spec_display_name rt entry else entry)"
  using split_on_hyphen [of "CHR ''-''" entry]
  by (simp add: name_from_entry_def spec_display_name_def Let_def)

lemma template_of_metadata:
  "(case metadata rt files dir e of
      None \<Rightarrow> template_of rt files dir e = default_template e
    | Some v \<Rightarrow> t_name (template_of rt files dir e) = name_from_entry rt e)"
  by (auto simp: metadata_def template_of_def existsSync_def readFileSync_def get_property_def
           lookup_def Let_def
           split: sum.splits option.splits json.splits entry.splits)

text \<open>
  Claim C9, as amended. Discovery over a templates directory does not fail, whatever the
  metadata files hold. For a discovered directory whose metadata file is read and parsed
  to a value other than \<^verbatim>\<open>null\<close>, the display name is, when the id contains a hyphen, the
  words after the first hyphen, each with its first character upper-cased, joined by
  spaces; when the id contains no hyphen it is the id itself. When the metadata file is
  missing, unreadable, not JSON or \<^verbatim>\<open>null\<close>, the descriptor is the default one: the id as
  name and the default description.
\<close>

theorem C9_display_name_and_fallback:
  assumes "lookup (disk w) templatesDir = Some Dir"
  shows "\<exists>ts. getAvailableTemplates skip rt templatesDir w = (Inr ts, w) \<and>
           (\<forall>t \<in> set ts.
              case metadata rt (disk w) templatesDir (t_id t) of
                None \<Rightarrow> t = default_template (t_id t)
              | Some v \<Rightarrow>
                  t_name t = (if CHR ''-'' \<in> set (t_id t) then spec_display_name rt (t_id t)
                              else t_id t))"
proof -
  let ?T = "template_of rt (disk w) templatesDir"
  let ?ts = "sort_by (compare_ids rt)
               (map ?T (filter (kept skip (disk w) templatesDir) (children (disk w) templatesDir)))"
  have r: "getAvailableTemplates skip rt templatesDir w = (Inr ?ts, w)"
    using discovered_templates [OF assms, of skip rt w _ _] by (metis prod.collapse)
  have "case metadata rt (disk w) templatesDir (t_id t) of
          None \<Rightarrow> t = default_template (t_id t)
        | Some v \<Rightarrow>
            t_name t = (if CHR ''-'' \<in> set (t_id t) then spec_display_name rt (t_id t)
                        else t_id t)" if "t \<in> set ?ts" for t
  proof -
    from that obtain e where "t = ?T e" by auto
    with template_of_metadata [of rt "disk w" templatesDir e] show ?thesis
      by (simp add: name_from_entry_eq split: option.splits)
  qed
  with r show ?thesis by blast
qed

theorem C9_display_name_witness:
  "lookup (disk (sample_world [])) [''cli'', ''templates''] = Some Dir \<and>
   (\<exists>ts. getAvailableTemplates in_SKIP_PATHS sample_runtime [''cli'', ''templates'']
            (sample_world []) = (Inr ts, sample_world []) \<and>
          (\<forall>t \<in> set ts.
              case metadata sample_runtime (disk (sample_world [])) [''cli'', ''templates''] (t_id t) of
                None \<Rightarrow> t = default_template (t_id t)
              | Some v \<Rightarrow>
                  t_name t = (if CHR ''-'' \<in> set (t_id t)
                              then spec_display_name sample_runtime (t_id t) else t_id t)))"
proof -
  have d: "lookup (disk (sample_world [])) [''cli'', ''templates''] = Some Dir"
    by (simp add: lookup_def sample_world_def sample_disk_def)
  from d C9_display_name_and_fallback [OF d, of in_SKIP_PATHS sample_runtime]
  show ?thesis by simp
qed

text \<open>
  The claim C9 as stated fails for a directory without a hyphen: with metadata that
  parses, the template \<^verbatim>\<open>plain\<close> keeps its id as name, while stripping the segment before
  the first hyphen leaves no word at all.
\<close>

theorem C9_name_without_hyphen_counterexample:
  "metadata sample_runtime sample_disk [''cli'', ''templates''] ''plain'' = Some manifest_value
   \<and> t_name (template_of sample_runtime sample_disk [''cli'', ''templates''] ''plain'') = ''plain''
   \<and> t_name (template_of sample_runtime sample_disk [''cli'', ''templates''] ''plain'')
       \<noteq> spec_display_name sample_runtime ''plain''"
  by code_simp

section \<open>The start of the main function and the selector\<close>

lemma getAvailableTemplates_found:
  assumes "fst (getAvailableTemplates skip rt dir w) = Inr ts"
  shows "getAvailableTemplates skip rt dir w = (Inr ts, w)" and "existsSync (disk w) dir"
  using assms
  by (auto simp: getAvailableTemplates_def split: if_splits sum.splits)

lemma nan_not_out_of_range:
  "parseInt answer = None \<Longrightarrow> answer \<noteq> [] \<Longrightarrow> \<not> out_of_range (choice_index answer dflt) n"
  by (simp add: choice_index_def out_of_range_def)

lemma nan_no_element:
  "parseInt answer = None \<Longrightarrow> answer \<noteq> [] \<Longrightarrow> element_at xs (choice_index answer dflt) = None"
  by (simp add: choice_index_def element_at_def)

lemma choose_template_nan:
  assumes "parseInt answer = None" "answer \<noteq> []" "stdin w = answer # rest"
  shows "choose_template dflt ts w = (Inl (Throw TypeError), w\<lparr>stdin := rest\<rparr>)"
  using assms
  by (simp add: choose_template_def question_def nan_not_out_of_range nan_no_element)

lemma choose_backend_nan:
  assumes "parseInt answer = None" "answer \<noteq> []" "stdin w = answer # rest"
  shows "choose_backend dflt shown bs w = (Inl (Throw TypeError), w\<lparr>stdin := rest\<rparr>)"
  using assms
  by (simp add: choose_backend_def question_def nan_not_out_of_range nan_no_element)

lemma choose_template_valid:
  assumes "stdin w = t # rest" "choice_index t dflt = Some i" "0 \<le> i" "i < int (length ts)"
  shows "choose_template dflt ts w = (Inr (ts ! nat i), w\<lparr>stdin := rest\<rparr>)"
  using assms
  by (simp add: choose_template_def question_def out_of_range_def element_at_def)

text \<open>
  Claim C1. When the target path exists at startup, every revision of the program ends
  with exit code 1 after printing that the directory exists, and the file system is
  exactly what it was: nothing is created, modified or deleted.
\<close>

theorem C1_existing_target_exits:
  assumes "existsSync (disk w) (path_resolve rt appName)"
  shows "main_esm fuel rt [appName] w = (Exited 1, print (ErrDirectoryExists appName) w)
       \<and> main_cfg fuel rt [appName] w = (Exited 1, print (ErrDirectoryExists appName) w)
       \<and> main_inl fuel rt [appName] w = (Exited 1, print (ErrDirectoryExists appName) w)
       \<and> disk (print (ErrDirectoryExists appName) w) = disk w"
  using assms by (simp add: main_esm_def main_cfg_def main_inl_def print_def)

theorem C1_existing_target_witness:
  "existsSync (disk (sample_world [''1''])) (path_resolve sample_runtime ''old'')
   \<and> main_esm 10 sample_runtime [''old''] (sample_world [''1''])
       = (Exited 1, print (ErrDirectoryExists ''old'') (sample_world [''1'']))
   \<and> disk (print (ErrDirectoryExists ''old'') (sample_world [''1''])) = sample_disk"
proof -
  have e: "existsSync (disk (sample_world [''1''])) (path_resolve sample_runtime ''old'')"
    by (simp add: existsSync_def lookup_def sample_world_def sample_runtime_def sample_disk_def)
  from e C1_existing_target_exits [OF e, of 10] show ?thesis
    by (simp add: sample_world_def)
qed

text \<open>
  Claim C2 fails in the ES-module revision. Its backend question shows the default
  \<^verbatim>\<open>[1]\<close>, but an empty answer is replaced by \<^verbatim>\<open>"3"\<close>, which is out of range for two
  backends: the run prints the invalid-choice error and exits with code 1, leaving the
  file system untouched, whereas the typed answer \<^verbatim>\<open>1\<close> selects the R backend and the run
  completes.
\<close>

theorem C2_empty_backend_answer_is_rejected:
  "main_esm 10 sample_runtime [''demo''] (sample_world [''1'', ''''])
     = (Exited 1, \<lparr>disk = sample_disk, printed = [ErrInvalidChoice 2], stdin = []\<rparr>)
   \<and> fst (main_esm 10 sample_runtime [''demo''] (sample_world [''1'', ''1'', ''1''])) = Exited 0
   \<and> lookup (disk (snd (main_esm 10 sample_runtime [''demo''] (sample_world [''1'', ''1'', ''1''])))) [''home'', ''demo'', ''r''] = Some Dir"
  by code_simp

lemma try_block_esm_nan_template:
  assumes "parseInt answer = None" "answer \<noteq> []" "stdin w = answer # rest"
  shows "finish (try_block_esm fuel rt appName targetDir templatesDir ts w)
           = (Exited 1, print (ErrCreatingApp TypeError) (w\<lparr>stdin := rest\<rparr>))"
  by (simp add: try_block_esm_def choose_template_nan [OF assms])

lemma try_block_cfg_nan_template:
  assumes "parseInt answer = None" "answer \<noteq> []" "stdin w = answer # rest"
  shows "finish (try_block_cfg fuel rt appName targetDir templatesDir ts w)
           = (Exited 1, print (ErrCreatingApp TypeError) (w\<lparr>stdin := rest\<rparr>))"
  by (simp add: try_block_cfg_def choose_template_nan [OF assms])

lemma try_block_inl_nan_template:
  assumes "parseInt answer = None" "answer \<noteq> []" "stdin w = answer # rest"
  shows "finish (try_block_inl fuel rt appName targetDir templatesDir ts w)
           = (Exited 1, print (ErrCreatingApp TypeError) (w\<lparr>stdin := rest\<rparr>))"
  by (simp add: try_block_inl_def choose_template_nan [OF assms])

lemma try_block_esm_nan_backend:
  assumes "parseInt answer = None" "answer \<noteq> []" "stdin w = t # answer # rest"
    and "choice_index t ''2'' = Some i" "0 \<le> i" "i < int (length ts)"
  shows "finish (try_block_esm fuel rt appName targetDir templatesDir ts w)
           = (Exited 1, print (ErrCreatingApp TypeError) (w\<lparr>stdin := rest\<rparr>))"
proof -
  have "choose_template ''2'' ts w = (Inr (ts ! nat i), w\<lparr>stdin := answer # rest\<rparr>)"
    using assms by (intro choose_template_valid) auto
  moreover have "choose_backend ''3'' 2 BACKENDS_esm (w\<lparr>stdin := answer # rest\<rparr>)
                   = (Inl (Throw TypeError), w\<lparr>stdin := rest\<rparr>)"
    using choose_backend_nan [OF assms(1,2), of "w\<lparr>stdin := answer # rest\<rparr>" rest] by simp
  ultimately show ?thesis by (simp add: try_block_esm_def)
qed

lemma try_block_cfg_nan_backend:
  assumes "parseInt answer = None" "answer \<noteq> []" "stdin w = t # answer # rest"
    and "choice_index t ''1'' = Some i" "0 \<le> i" "i < int (length ts)"
  shows "finish (try_block_cfg fuel rt appName targetDir templatesDir ts w)
           = (Exited 1, print (ErrCreatingApp TypeError) (w\<lparr>stdin := rest\<rparr>))"
proof -
  have "choose_template ''1'' ts w = (Inr (ts ! nat i), w\<lparr>stdin := answer # rest\<rparr>)"
    using assms by (intro choose_template_valid) auto
  moreover have "choose_backend ''3'' 3 BACKENDS_cjs (w\<lparr>stdin := answer # rest\<rparr>)
                   = (Inl (Throw TypeError), w\<lparr>stdin := rest\<rparr>)"
    using choose_backend_nan [OF assms(1,2), of "w\<lparr>stdin := answer # rest\<rparr>" rest] by simp
  ultimately show ?thesis by (simp add: try_block_cfg_def)
qed

lemma try_block_inl_nan_backend:
  assumes "parseInt answer = None" "answer \<noteq> []" "stdin w = t # answer # rest"
    and "choice_index t ''1'' = Some i" "0 \<le> i" "i < int (length ts)"
  shows "finish (try_block_inl fuel rt appName targetDir templatesDir ts w)
           = (Exited 1, print (ErrCreatingApp TypeError) (w\<lparr>stdin := rest\<rparr>))"
proof -
  have "choose_template ''1'' ts w = (Inr (ts ! nat i), w\<lparr>stdin := answer # rest\<rparr>)"
    using assms by (intro choose_template_valid) auto
  moreover have "choose_backend ''3'' 3 BACKENDS_cjs (w\<lparr>stdin := answer # rest\<rparr>)
                   = (Inl (Throw TypeError), w\<lparr>stdin := rest\<rparr>)"
    using choose_backend_nan [OF assms(1,2), of "w\<lparr>stdin := answer # rest\<rparr>" rest] by simp
  ultimately show ?thesis by (simp add: try_block_inl_def)
qed

lemma main_esm_reaches_try:
  assumes "\<not> existsSync (disk w) (path_resolve rt appName)"
    and "fst (getAvailableTemplates in_SKIP_PATHS rt (butlast (dirname rt) @ [''templates'']) w) = Inr ts"
  shows "main_esm fuel rt [appName] w =
           finish (try_block_esm fuel rt appName (path_resolve rt appName)
                     (butlast (dirname rt) @ [''templates'']) ts w)"
  using assms(1) getAvailableTemplates_found [OF assms(2)]
  by (simp add: main_esm_def)

lemma main_cfg_reaches_try:
  assumes "\<not> existsSync (disk w) (path_resolve rt appName)"
    and "fst (getAvailableTemplates in_SKIP_PATHS rt (butlast (dirname rt) @ [''templates'']) w) = Inr ts"
  shows "main_cfg fuel rt [appName] w =
           finish (try_block_cfg fuel rt appName (path_resolve rt appName)
                     (butlast (dirname rt) @ [''templates'']) ts w)"
  using assms(1) getAvailableTemplates_found [OF assms(2)]
  by (simp add: main_cfg_def)

lemma main_inl_reaches_try:
  assumes "\<not> existsSync (disk w) (path_resolve rt appName)"
    and "require_resolve rt = Some resolved"
    and "fst (getAvailableTemplates starts_with_dot rt (butlast (butlast resolved) @ [''templates'']) w) = Inr ts"
  shows "main_inl fuel rt [appName] w =
           finish (try_block_inl fuel rt appName (path_resolve rt appName)
                     (butlast (butlast resolved) @ [''templates'']) ts w)"
  using assms(1,2) getAvailableTemplates_found [OF assms(3)]
  by (simp add: main_inl_def locate_shiny_react_def)

section \<open>What a copy writes\<close>

lemma lookup_update:
  "k \<noteq> [] \<Longrightarrow> lookup (AList.update k v files) p = (if p = k then Some v else lookup files p)"
  by (simp add: lookup_def update_conv')

lemma lookup_delete:
  "lookup (AList.delete k files) p = (if p = k \<and> p \<noteq> [] then None else lookup files p)"
  by (simp add: lookup_def delete_conv')

lemma writeFileSync_lookup:
  "writeFileSync files p c = Inr files' \<Longrightarrow>
   lookup files' q = (if q = p then Some (File c) else lookup files q)"
  by (auto simp: writeFileSync_def lookup_update split: if_splits option.splits entry.splits)

lemma copyFileSync_lookup:
  assumes "copyFileSync files src dest = Inr files'"
  shows "\<exists>c. \<forall>q. lookup files' q = (if q = dest then Some (File c) else lookup files q)"
proof -
  from assms obtain c where "writeFileSync files dest c = Inr files'"
    by (auto simp: copyFileSync_def split: sum.splits)
  then have "\<forall>q. lookup files' q = (if q = dest then Some (File c) else lookup files q)"
    by (simp add: writeFileSync_lookup)
  then show ?thesis ..
qed

lemma unlinkSync_lookup:
  assumes "unlinkSync files p = Inr files'"
  shows "lookup files' q = (if q = p then None else lookup files q)"
proof -
  from assms obtain c where c: "lookup files p = Some (File c)" "files' = AList.delete p files"
    by (auto simp: unlinkSync_def split: option.splits entry.splits)
  from c(1) have "p \<noteq> []" by (auto simp: lookup_def)
  with c(2) show ?thesis by (simp add: lookup_delete)
qed

lemma mkdir_from_lookup:
  "mkdir_from files done xs = Inr files' \<Longrightarrow>
   lookup files' p = lookup files p \<or>
   (lookup files p = None \<and> lookup files' p = Some Dir \<and>
    (\<exists>k. 0 < k \<and> k \<le> length xs \<and> p = done @ take k xs))"
proof (induction files "done" xs arbitrary: files' rule: mkdir_from.induct)
  case (1 files "done")
  then show ?case by simp
next
  case (2 files "done" x xs)
  show ?case
  proof (cases "lookup files (done @ [x])")
    case None
    with 2 have rec: "mkdir_from (AList.update (done @ [x]) Dir files) (done @ [x]) xs = Inr files'"
      by simp
    from "2.IH"(1) [OF None rec]
    consider "lookup files' p = lookup (AList.update (done @ [x]) Dir files) p"
      | k where "lookup files' p = Some Dir" "0 < k" "k \<le> length xs" "p = (done @ [x]) @ take k xs"
        "lookup (AList.update (done @ [x]) Dir files) p = None"
      by blast
    then show ?thesis
    proof cases
      case 1
      show ?thesis
      proof (cases "p = done @ [x]")
        case True
        with 1 None have "lookup files p = None" "lookup files' p = Some Dir"
          by (simp_all add: lookup_update)
        moreover have "p = done @ take 1 (x # xs)" using True by simp
        ultimately show ?thesis by (intro disjI2 conjI exI [of _ 1]) auto
      next
        case False
        with 1 show ?thesis by (simp add: lookup_update)
      qed
    next
      case 2
      then have ne: "p \<noteq> done @ [x]" by (auto simp: lookup_update split: if_splits)
      with 2 have "lookup files p = None" by (simp add: lookup_update)
      moreover have "p = done @ take (Suc k) (x # xs)" using 2 by simp
      ultimately show ?thesis using 2
        by (intro disjI2 conjI exI [of _ "Suc k"]) auto
    qed
  next
    case (Some e)
    show ?thesis
    proof (cases e)
      case (File c)
      with Some 2 show ?thesis by simp
    next
      case Dir
      with Some 2 have rec: "mkdir_from files (done @ [x]) xs = Inr files'" by simp
      from "2.IH"(2) [OF Some Dir rec] show ?thesis
      proof
        assume "lookup files' p = lookup files p" then show ?thesis by simp
      next
        assume "lookup files p = None \<and> lookup files' p = Some Dir \<and>
          (\<exists>k. 0 < k \<and> k \<le> length xs \<and> p = (done @ [x]) @ take k xs)"
        then obtain k where k: "lookup files p = None" "lookup files' p = Some Dir"
           "0 < k" "k \<le> length xs" "p = (done @ [x]) @ take k xs" by blast
        then have "p = done @ take (Suc k) (x # xs)" by simp
        with k show ?thesis by (intro disjI2 conjI exI [of _ "Suc k"]) auto
      qed
    qed
  qed
qed

lemma mkdir_from_creates:
  "mkdir_from files done xs = Inr files' \<Longrightarrow> lookup files done = Some Dir \<Longrightarrow>
   lookup files' (done @ xs) = Some Dir"
proof (induction files "done" xs arbitrary: files' rule: mkdir_from.induct)
  case (1 files "done")
  then show ?case by simp
next
  case (2 files "done" x xs)
  show ?case
  proof (cases "lookup files (done @ [x])")
    case None
    with 2 have rec: "mkdir_from (AList.update (done @ [x]) Dir files) (done @ [x]) xs = Inr files'"
      by simp
    from "2.IH"(1) [OF None rec] show ?thesis by (simp add: lookup_update)
  next
    case (Some e)
    with 2 show ?thesis by (cases e) auto
  qed
qed

lemma touched_prefix: "prefix p dest \<Longrightarrow> touched sp sb dest p"
  by (simp add: touched_def)

lemma touched_child:
  assumes "file \<notin> set sp" "file \<notin> set sb" "touched sp sb (dest @ [file]) p"
  shows "touched sp sb dest p"
proof -
  from assms(3) consider "prefix p (dest @ [file])"
    | q where "p = (dest @ [file]) @ q" "set q \<inter> (set sp \<union> set sb) = {}"
    by (auto simp: touched_def)
  then show ?thesis
  proof cases
    case 1
    then have "prefix p dest \<or> p = dest @ [file]" by (auto simp: prefix_snoc)
    with assms(1,2) show ?thesis by (auto simp: touched_def)
  next
    case 2
    with assms(1,2) have "p = dest @ (file # q)" "set (file # q) \<inter> (set sp \<union> set sb) = {}"
      by auto
    then show ?thesis unfolding touched_def by blast
  qed
qed

lemma grows_refl: "grows sp sb dest files files"
  by (simp add: grows_def)

lemma grows_trans:
  "grows sp sb dest fs1 fs2 \<Longrightarrow> grows sp sb dest fs2 fs3 \<Longrightarrow> grows sp sb dest fs1 fs3"
  unfolding grows_def by metis

lemma grows_child:
  "entry \<notin> set sp \<Longrightarrow> entry \<notin> set sb \<Longrightarrow> grows sp sb (dest @ [entry]) fs1 fs2 \<Longrightarrow>
   grows sp sb dest fs1 fs2"
  unfolding grows_def using touched_child by metis

lemma grows_mkdir:
  assumes "mkdirSync_recursive files dest = Inr files'"
  shows "grows sp sb dest files files'"
  unfolding grows_def
proof
  fix p
  from mkdir_from_lookup [of files "[]" dest files' p] assms
  have "lookup files' p = lookup files p \<or>
        (lookup files' p = Some Dir \<and> (\<exists>k. p = take k dest))"
    by (auto simp: mkdirSync_recursive_def)
  then show "lookup files' p = lookup files p \<or>
             (touched sp sb dest p \<and> lookup files' p \<noteq> None)"
    by (auto simp: take_is_prefix intro: touched_prefix)
qed

lemma grows_copyFile:
  assumes "copyFileSync files src dest = Inr files'"
  shows "grows sp sb dest files files'"
proof -
  from copyFileSync_lookup [OF assms] obtain c where
    "\<forall>q. lookup files' q = (if q = dest then Some (File c) else lookup files q)" ..
  then show ?thesis by (auto simp: grows_def touched_def)
qed

lemma grows_exists: "grows sp sb dest files files' \<Longrightarrow> lookup files p \<noteq> None \<Longrightarrow> lookup files' p \<noteq> None"
  unfolding grows_def by metis

lemma copy_grows:
  "copyRecursive n sp sb src dest w = (r, w') \<Longrightarrow> grows sp sb dest (disk w) (disk w')"
  "copy_entries n sp sb src dest files w = (r, w') \<Longrightarrow> grows sp sb dest (disk w) (disk w')"
proof (induction n sp sb src dest w and n sp sb src dest files w arbitrary: r w' and r w'
       rule: copyRecursive_copy_entries.induct)
  case (1 skipPaths skipBackends src dest w)
  then show ?case by (simp add: grows_refl)
next
  case (2 n skipPaths skipBackends src dest w)
  show ?case
  proof (cases "existsSync (disk w) src")
    case False
    with "2.prems" show ?thesis by (auto simp: print_def grows_refl)
  next
    case True
    show ?thesis
    proof (cases "isDirectory (disk w) src")
      case (Inl e)
      with True "2.prems" show ?thesis by (auto simp: grows_refl)
    next
      case (Inr d)
      show ?thesis
      proof (cases d)
        case False
        with Inr True "2.prems" show ?thesis
          by (auto simp: grows_refl grows_copyFile split: sum.splits)
      next
        case isdir: True
        let ?mk = "if \<not> existsSync (disk w) dest then mkdirSync_recursive (disk w) dest
                   else Inr (disk w)"
        show ?thesis
        proof (cases ?mk)
          case (Inl e)
          with Inr True isdir "2.prems" show ?thesis by (auto simp: grows_refl)
        next
          case mk: (Inr fs1)
          then have step1: "grows skipPaths skipBackends dest (disk w) fs1"
            by (auto simp: grows_refl grows_mkdir split: if_splits)
          show ?thesis
          proof (cases "readdirSync fs1 src")
            case (Inl e)
            with Inr True isdir mk "2.prems" have "disk w' = fs1" by auto
            with step1 show ?thesis by simp
          next
            case files: (Inr files)
            with Inr True isdir mk "2.prems" have
              run: "copy_entries n skipPaths skipBackends src dest files (w\<lparr>disk := fs1\<rparr>) = (r, w')"
              by auto
            from "2.IH" [of d fs1 files r w'] True Inr isdir mk files run
            have "grows skipPaths skipBackends dest fs1 (disk w')" by simp
            with step1 show ?thesis by (rule grows_trans)
          qed
        qed
      qed
    qed
  qed
next
  case (3 n skipPaths skipBackends src dest w)
  then show ?case by (simp add: grows_refl)
next
  case (4 n skipPaths skipBackends src dest entry entries w)
  show ?case
  proof (cases "entry \<in> set skipPaths")
    case True
    with "4.prems" "4.IH"(1) show ?thesis by simp
  next
    case nsp: False
    show ?thesis
    proof (cases "entry \<in> set skipBackends")
      case True
      with nsp "4.prems" "4.IH"(2) show ?thesis by simp
    next
      case nsb: False
      obtain r1 w1 where
        one: "copyRecursive n skipPaths skipBackends (src @ [entry]) (dest @ [entry]) w = (r1, w1)"
        by (cases "copyRecursive n skipPaths skipBackends (src @ [entry]) (dest @ [entry]) w")
      have first: "grows skipPaths skipBackends dest (disk w) (disk w1)"
        using nsp nsb "4.IH"(3) [OF nsp nsb one] by (rule grows_child)
      show ?thesis
      proof (cases r1)
        case (Inl a)
        with nsp nsb one "4.prems" have "w' = w1" by simp
        with first show ?thesis by simp
      next
        case (Inr u)
        with nsp nsb one "4.prems" have
          rest: "copy_entries n skipPaths skipBackends src dest entries w1 = (r, w')" by simp
        from "4.IH"(4) [OF nsp nsb one [symmetric] _ rest] Inr
        have "grows skipPaths skipBackends dest (disk w1) (disk w')" by simp
        with first show ?thesis by (rule grows_trans)
      qed
    qed
  qed
qed

lemma copyRecursive_creates_dest:
  assumes "copyRecursive n sp sb src dest w = (Inr u, w')"
  shows "lookup (disk w') dest \<noteq> None"
proof (cases n)
  case 0
  with assms show ?thesis by simp
next
  case (Suc m)
  from assms Suc have ex: "existsSync (disk w) src" by (auto split: if_splits)
  show ?thesis
  proof (cases "isDirectory (disk w) src")
    case (Inl e)
    with assms Suc ex show ?thesis by simp
  next
    case (Inr d)
    show ?thesis
    proof (cases d)
      case False
      with Inr ex assms Suc obtain fs1 where
        c: "copyFileSync (disk w) src dest = Inr fs1" and w': "disk w' = fs1"
        by (auto split: sum.splits)
      from copyFileSync_lookup [OF c] obtain c' where
        "\<forall>q. lookup fs1 q = (if q = dest then Some (File c') else lookup (disk w) q)" ..
      with w' show ?thesis by simp
    next
      case True
      let ?mk = "if \<not> existsSync (disk w) dest then mkdirSync_recursive (disk w) dest
                 else Inr (disk w)"
      from Inr ex True assms Suc obtain fs1 files where
        mk: "?mk = Inr fs1" and
        run: "copy_entries m sp sb src dest files (w\<lparr>disk := fs1\<rparr>) = (Inr u, w')"
        by (auto split: sum.splits)
      have "lookup fs1 dest \<noteq> None"
      proof (cases "existsSync (disk w) dest")
        case True
        with mk show ?thesis by (auto simp: existsSync_def)
      next
        case False
        with mk have "mkdir_from (disk w) [] dest = Inr fs1" by (simp add: mkdirSync_recursive_def)
        from mkdir_from_creates [OF this] show ?thesis by (simp add: lookup_def)
      qed
      with copy_grows(2) [OF run] show ?thesis by (auto dest: grows_exists)
    qed
  qed
qed

lemma copy_entries_creates:
  "copy_entries n sp sb src dest entries w = (Inr u, w') \<Longrightarrow> entry \<in> set entries \<Longrightarrow>
   entry \<notin> set sp \<Longrightarrow> entry \<notin> set sb \<Longrightarrow> lookup (disk w') (dest @ [entry]) \<noteq> None"
proof (induction entries arbitrary: w)
  case Nil
  then show ?case by simp
next
  case (Cons x xs)
  show ?case
  proof (cases "x \<in> set sp \<or> x \<in> set sb")
    case True
    with Cons.prems have "copy_entries n sp sb src dest xs w = (Inr u, w')" "entry \<in> set xs"
      by (auto split: if_splits)
    with Cons.IH Cons.prems show ?thesis by blast
  next
    case False
    obtain r1 w1 where
      one: "copyRecursive n sp sb (src @ [x]) (dest @ [x]) w = (r1, w1)"
      by (cases "copyRecursive n sp sb (src @ [x]) (dest @ [x]) w")
    with False Cons.prems(1) obtain u1 where r1: "r1 = Inr u1"
      and rest: "copy_entries n sp sb src dest xs w1 = (Inr u, w')"
      by (cases r1) auto
    show ?thesis
    proof (cases "entry = x")
      case True
      from one r1 have "lookup (disk w1) (dest @ [x]) \<noteq> None"
        by (auto dest: copyRecursive_creates_dest)
      with copy_grows(2) [OF rest] True show ?thesis by (auto dest: grows_exists)
    next
      case False
      with Cons.prems have "entry \<in> set xs" by simp
      with Cons.IH [OF rest] Cons.prems show ?thesis by blast
    qed
  qed
qed

lemma child_listed:
  assumes "lookup files (dir @ [entry]) \<noteq> None"
  shows "entry \<in> set (children files dir)"
proof -
  from assms obtain e where "map_of files (dir @ [entry]) = Some e" by (auto simp: lookup_def)
  then have "(dir @ [entry], e) \<in> set files" by (rule map_of_SomeD)
  then have "(dir @ [entry], e) \<in> set (filter (\<lambda>(q, e). q \<noteq> [] \<and> butlast q = dir) files)" by simp
  then have "(last \<circ> fst) (dir @ [entry], e) \<in> set (children files dir)"
    unfolding children_def by (metis (no_types, lifting) image_eqI set_map)
  then show ?thesis by simp
qed

lemma wf_fs_parent:
  assumes "wf_fs files" "lookup files (p @ [x]) \<noteq> None"
  shows "lookup files p = Some Dir"
proof -
  from assms(2) obtain e where "map_of files (p @ [x]) = Some e" by (auto simp: lookup_def)
  then have "(p @ [x], e) \<in> set files" by (rule map_of_SomeD)
  with assms(1) have "lookup files (butlast (p @ [x])) = Some Dir"
    by (auto simp: wf_fs_def list_all_iff)
  then show ?thesis by simp
qed

lemma wf_fs_absent_below:
  assumes "wf_fs files" "lookup files p = None"
  shows "lookup files (p @ q) = None"
proof (induction q rule: rev_induct)
  case Nil
  with assms show ?case by simp
next
  case (snoc x q)
  show ?case
  proof (rule ccontr)
    assume "lookup files (p @ q @ [x]) \<noteq> None"
    then have "lookup files ((p @ q) @ [x]) \<noteq> None" by simp
    with assms(1) have "lookup files (p @ q) = Some Dir" by (rule wf_fs_parent)
    with snoc show False by simp
  qed
qed

lemma touched_not_skipped:
  assumes "touched sp sb dest (dest @ q)" "name \<in> set q"
  shows "name \<notin> set sp \<and> name \<notin> set sb"
proof -
  from assms(2) have "q \<noteq> []" by auto
  then have "\<not> prefix (dest @ q) dest" by (auto simp: prefix_def)
  with assms(1) have "set q \<inter> (set sp \<union> set sb) = {}" by (auto simp: touched_def)
  with assms(2) show ?thesis by auto
qed

lemma apply_custom_esm_disk:
  assumes "apply_custom_esm rt path b pj w = Inr (pj', w1)" "p \<noteq> path"
  shows "lookup (disk w1) p = lookup (disk w) p"
  using assms
  by (auto simp: apply_custom_esm_def print_def unlinkSync_lookup
           split: sum.splits option.splits if_splits abort.splits)

lemma apply_config_cfg_disk:
  assumes "apply_config_cfg rt path b pj w = Inr (pj', w1)" "p \<noteq> path"
  shows "lookup (disk w1) p = lookup (disk w) p"
  using assms
  by (auto simp: apply_config_cfg_def print_def unlinkSync_lookup
           split: sum.splits option.splits if_splits abort.splits)

lemma updatePackageJson_esm_disk:
  assumes "updatePackageJson_esm rt targetDir appName b w = (r, w')"
    and "p \<noteq> targetDir @ [''package.json'']" "p \<noteq> targetDir @ [''package-custom.json'']"
  shows "lookup (disk w') p = lookup (disk w) p"
proof (cases "existsSync (disk w) (targetDir @ [''package.json''])")
  case False
  with assms show ?thesis by (simp add: updatePackageJson_esm_def)
next
  case True
  show ?thesis
  proof (cases "disk w' = disk w")
    case True
    then show ?thesis by simp
  next
    case False
    with assms(1) True obtain pj1 pj2 w1 where
      w1: "(if existsSync (disk w) (targetDir @ [''package-custom.json''])
            then apply_custom_esm rt (targetDir @ [''package-custom.json'']) b pj1 w
            else Inr (pj1, w)) = Inr (pj2, w1)"
      and w': "disk w' = disk w1 \<or>
               writeFileSync (disk w1) (targetDir @ [''package.json'']) (JSON_stringify rt pj2)
                 = Inr (disk w')"
      by (auto simp: updatePackageJson_esm_def Let_def split: sum.splits option.splits prod.splits)
    from w1 assms(3) have "lookup (disk w1) p = lookup (disk w) p"
      by (auto dest: apply_custom_esm_disk split: if_splits)
    with w' assms(2) show ?thesis by (auto simp: writeFileSync_lookup)
  qed
qed

lemma updatePackageJson_cfg_disk:
  assumes "updatePackageJson_cfg rt targetDir appName b w = (r, w')"
    and "p \<noteq> targetDir @ [''package.json'']" "p \<noteq> targetDir @ [''package-config.json'']"
  shows "lookup (disk w') p = lookup (disk w) p"
proof (cases "existsSync (disk w) (targetDir @ [''package.json''])")
  case False
  with assms show ?thesis by (simp add: updatePackageJson_cfg_def)
next
  case True
  show ?thesis
  proof (cases "disk w' = disk w")
    case True
    then show ?thesis by simp
  next
    case False
    with assms(1) True obtain pj1 pj2 w1 where
      w1: "(if existsSync (disk w) (targetDir @ [''package-config.json''])
            then apply_config_cfg rt (targetDir @ [''package-config.json'']) b pj1 w
            else Inr (pj1, w)) = Inr (pj2, w1)"
      and w': "disk w' = disk w1 \<or>
               writeFileSync (disk w1) (targetDir @ [''package.json'']) (JSON_stringify rt pj2)
                 = Inr (disk w')"
      by (auto simp: updatePackageJson_cfg_def Let_def split: sum.splits option.splits prod.splits)
    from w1 assms(3) have "lookup (disk w1) p = lookup (disk w) p"
      by (auto dest: apply_config_cfg_disk split: if_splits)
    with w' assms(2) show ?thesis by (auto simp: writeFileSync_lookup)
  qed
qed

lemma updatePackageJson_inl_disk:
  assumes "updatePackageJson_inl rt targetDir appName b w = (r, w')"
    and "p \<noteq> targetDir @ [''package.json'']"
  shows "lookup (disk w') p = lookup (disk w) p"
  using assms
  by (auto simp: updatePackageJson_inl_def Let_def writeFileSync_lookup
           split: sum.splits option.splits if_splits)

lemma write_claude_md_disk:
  assumes "write_claude_md rt pat templatesDir targetDir appName w = (r, w')"
    and "p \<noteq> targetDir @ [''CLAUDE.md'']"
  shows "lookup (disk w') p = lookup (disk w) p"
  using assms
  by (auto simp: write_claude_md_def Let_def print_def writeFileSync_lookup
           split: sum.splits if_splits)

lemma copy_shiny_react_md_disk:
  assumes "copy_shiny_react_md templatesDir targetDir w = (r, w')"
    and "p \<noteq> targetDir @ [''SHINY-REACT.md'']"
  shows "lookup (disk w') p = lookup (disk w) p"
proof (cases "disk w' = disk w")
  case True
  then show ?thesis by simp
next
  case False
  with assms(1) have "copyFileSync (disk w) (templatesDir @ [''SHINY-REACT.md''])
                        (targetDir @ [''SHINY-REACT.md'']) = Inr (disk w')"
    by (auto simp: copy_shiny_react_md_def Let_def print_def split: sum.splits if_splits)
  from copyFileSync_lookup [OF this] assms(2) show ?thesis by auto
qed

lemma after_copy_esm:
  assumes "generate_esm fuel rt appName targetDir templatesDir t b claude w = (r, w')"
  obtains r1 w1 where
    "copyRecursive fuel SKIP_PATHS (skip_backends b) (templatesDir @ [t_id t]) targetDir w = (r1, w1)"
    "\<And>p. \<forall>name \<in> set generated_names. p \<noteq> targetDir @ [name] \<Longrightarrow>
          lookup (disk w') p = lookup (disk w1) p"
    "r = Inr () \<Longrightarrow> r1 = Inr ()"
proof -
  obtain r1 w1 where c:
    "copyRecursive fuel SKIP_PATHS (skip_backends b) (templatesDir @ [t_id t]) targetDir w = (r1, w1)"
    by (cases "copyRecursive fuel SKIP_PATHS (skip_backends b) (templatesDir @ [t_id t]) targetDir w")
  have "lookup (disk w') p = lookup (disk w1) p"
    if p: "\<forall>name \<in> set generated_names. p \<noteq> targetDir @ [name]" for p
  proof (cases r1)
    case (Inl a)
    with assms c show ?thesis by (simp add: generate_esm_def)
  next
    case (Inr u)
    obtain r2 w2 where u: "updatePackageJson_esm rt targetDir appName b w1 = (r2, w2)"
      by (cases "updatePackageJson_esm rt targetDir appName b w1")
    from p have 2: "lookup (disk w2) p = lookup (disk w1) p"
      by (intro updatePackageJson_esm_disk [OF u]) (auto simp: generated_names_def)
    show ?thesis
    proof (cases "r2 = Inr () \<and> claude")
      case False
      with assms c Inr u 2 show ?thesis
        by (cases r2) (auto simp: generate_esm_def)
    next
      case True
      obtain r3 w3 where d: "write_claude_md rt ''{project_name}'' templatesDir targetDir appName w2 = (r3, w3)"
        by (cases "write_claude_md rt ''{project_name}'' templatesDir targetDir appName w2")
      from p have 3: "lookup (disk w3) p = lookup (disk w2) p"
        by (intro write_claude_md_disk [OF d]) (auto simp: generated_names_def)
      show ?thesis
      proof (cases r3)
        case (Inl a)
        with assms c Inr u True d 2 3 show ?thesis by (auto simp: generate_esm_def)
      next
        case r3: (Inr u3)
        with assms c Inr u True d have "copy_shiny_react_md templatesDir targetDir w3 = (r, w')"
          by (auto simp: generate_esm_def)
        from copy_shiny_react_md_disk [OF this, of p] p 2 3 show ?thesis
          by (auto simp: generated_names_def)
      qed
    qed
  qed
  moreover have "r1 = Inr ()" if "r = Inr ()"
    using that assms c by (cases r1) (auto simp: generate_esm_def)
  ultimately show ?thesis using c that by blast
qed

lemma after_copy_cfg:
  assumes "generate_cfg fuel rt appName targetDir templatesDir t b claude w = (r, w')"
  obtains r1 w1 where
    "copyRecursive fuel SKIP_PATHS (skip_backends b) (templatesDir @ [t_id t]) targetDir w = (r1, w1)"
    "\<And>p. \<forall>name \<in> set generated_names. p \<noteq> targetDir @ [name] \<Longrightarrow>
          lookup (disk w') p = lookup (disk w1) p"
    "r = Inr () \<Longrightarrow> r1 = Inr ()"
proof -
  obtain r1 w1 where c:
    "copyRecursive fuel SKIP_PATHS (skip_backends b) (templatesDir @ [t_id t]) targetDir w = (r1, w1)"
    by (cases "copyRecursive fuel SKIP_PATHS (skip_backends b) (templatesDir @ [t_id t]) targetDir w")
  have "lookup (disk w') p = lookup (disk w1) p"
    if p: "\<forall>name \<in> set generated_names. p \<noteq> targetDir @ [name]" for p
  proof (cases r1)
    case (Inl a)
    with assms c show ?thesis by (simp add: generate_cfg_def)
  next
    case (Inr u)
    obtain r2 w2 where u: "updatePackageJson_cfg rt targetDir appName b w1 = (r2, w2)"
      by (cases "updatePackageJson_cfg rt targetDir appName b w1")
    from p have 2: "lookup (disk w2) p = lookup (disk w1) p"
      by (intro updatePackageJson_cfg_disk [OF u]) (auto simp: generated_names_def)
    show ?thesis
    proof (cases "r2 = Inr () \<and> claude")
      case False
      with assms c Inr u 2 show ?thesis
        by (cases r2) (auto simp: generate_cfg_def)
    next
      case True
      with assms c Inr u have
        d: "write_claude_md rt ''hello-world-app'' templatesDir targetDir appName w2 = (r, w')"
        by (auto simp: generate_cfg_def)
      from write_claude_md_disk [OF d, of p] p 2 show ?thesis
        by (auto simp: generated_names_def)
    qed
  qed
  moreover have "r1 = Inr ()" if "r = Inr ()"
    using that assms c by (cases r1) (auto simp: generate_cfg_def)
  ultimately show ?thesis using c that by blast
qed

lemma after_copy_inl:
  assumes "generate_inl fuel rt appName targetDir templatesDir t b claude w = (r, w')"
  obtains r1 w1 where
    "copyRecursive fuel SKIP_INLINE (skip_backends b) (templatesDir @ [t_id t]) targetDir w = (r1, w1)"
    "\<And>p. \<forall>name \<in> set generated_names. p \<noteq> targetDir @ [name] \<Longrightarrow>
          lookup (disk w') p = lookup (disk w1) p"
    "r = Inr () \<Longrightarrow> r1 = Inr ()"
proof -
  obtain r1 w1 where c:
    "copyRecursive fuel SKIP_INLINE (skip_backends b) (templatesDir @ [t_id t]) targetDir w = (r1, w1)"
    by (cases "copyRecursive fuel SKIP_INLINE (skip_backends b) (templatesDir @ [t_id t]) targetDir w")
  have "lookup (disk w') p = lookup (disk w1) p"
    if p: "\<forall>name \<in> set generated_names. p \<noteq> targetDir @ [name]" for p
  proof (cases r1)
    case (Inl a)
    with assms c show ?thesis by (simp add: generate_inl_def)
  next
    case (Inr u)
    obtain r2 w2 where u: "updatePackageJson_inl rt targetDir appName b w1 = (r2, w2)"
      by (cases "updatePackageJson_inl rt targetDir appName b w1")
    from p have 2: "lookup (disk w2) p = lookup (disk w1) p"
      by (intro updatePackageJson_inl_disk [OF u]) (auto simp: generated_names_def)
    show ?thesis
    proof (cases "r2 = Inr () \<and> claude")
      case False
      with assms c Inr u 2 show ?thesis
        by (cases r2) (auto simp: generate_inl_def)
    next
      case True
      with assms c Inr u have
        d: "write_claude_md rt ''hello-world-app'' templatesDir targetDir appName w2 = (r, w')"
        by (auto simp: generate_inl_def)
      from write_claude_md_disk [OF d, of p] p 2 show ?thesis
        by (auto simp: generated_names_def)
    qed
  qed
  moreover have "r1 = Inr ()" if "r = Inr ()"
    using that assms c by (cases r1) (auto simp: generate_inl_def)
  ultimately show ?thesis using c that by blast
qed

lemma copyRecursive_copies_child:
  assumes run: "copyRecursive n sp sb src dest w = (Inr u, w')"
      and src: "lookup (disk w) src = Some Dir"
      and child: "lookup (disk w) (src @ [entry]) \<noteq> None"
      and keep: "entry \<notin> set sp" "entry \<notin> set sb"
  shows "lookup (disk w') (dest @ [entry]) \<noteq> None"
proof (cases n)
  case 0
  with run show ?thesis by simp
next
  case (Suc m)
  let ?mk = "if \<not> existsSync (disk w) dest then mkdirSync_recursive (disk w) dest
             else Inr (disk w)"
  from src have "existsSync (disk w) src" "isDirectory (disk w) src = Inr True"
    by (simp_all add: existsSync_def isDirectory_def)
  with run Suc obtain fs1 entries where
    mk: "?mk = Inr fs1" and rd: "readdirSync fs1 src = Inr entries" and
    rest: "copy_entries m sp sb src dest entries (w\<lparr>disk := fs1\<rparr>) = (Inr u, w')"
    by (auto split: sum.splits)
  from mk have "grows sp sb dest (disk w) fs1"
    by (auto simp: grows_refl grows_mkdir split: if_splits)
  from this child have "lookup fs1 (src @ [entry]) \<noteq> None" by (rule grows_exists)
  then have "entry \<in> set (children fs1 src)" by (rule child_listed)
  moreover from rd have "entries = children fs1 src"
    by (auto simp: readdirSync_def split: option.splits entry.splits)
  ultimately have "entry \<in> set entries" by simp
  from copy_entries_creates [OF rest this keep] show ?thesis .
qed

lemma skipped_stays_absent:
  assumes wf: "wf_fs (disk w)" "\<not> existsSync (disk w) dest"
      and run: "copyRecursive n sp sb src dest w = (r, w1)"
      and same: "\<And>p. \<forall>name \<in> set generated_names. p \<noteq> dest @ [name] \<Longrightarrow>
                   lookup (disk w') p = lookup (disk w1) p"
      and name: "name \<in> set sp \<or> name \<in> set sb" "name \<in> set q" "name \<notin> set generated_names"
  shows "\<not> existsSync (disk w') (dest @ q)"
proof -
  from wf have absent: "lookup (disk w) (dest @ q) = None"
    by (auto simp: existsSync_def intro: wf_fs_absent_below)
  from copy_grows(1) [OF run] have
    "lookup (disk w1) (dest @ q) = lookup (disk w) (dest @ q) \<or> touched sp sb dest (dest @ q)"
    by (auto simp: grows_def)
  with touched_not_skipped [of sp sb dest q name] name absent
  have 1: "lookup (disk w1) (dest @ q) = None" by auto
  have "dest @ q \<noteq> dest @ [g]" if "g \<in> set generated_names" for g
    using name(2,3) that by auto
  with same [of "dest @ q"] 1 show ?thesis by (auto simp: existsSync_def)
qed

text \<open>
  Claim C6, as amended. A copy never creates or changes a path below the destination
  that has a segment named in the static skip-list of the revision, at any depth: the
  names \<^verbatim>\<open>node_modules\<close>, \<^verbatim>\<open>www\<close>, \<^verbatim>\<open>__pycache__\<close>, \<^verbatim>\<open>.DS_Store\<close> in the two later
  revisions, the names \<^verbatim>\<open>node_modules\<close>, \<^verbatim>\<open>www\<close> in the earliest one. Where the
  destination did not exist before, no such path exists after the copy, whether the copy
  completed or not.
\<close>

theorem C6_skip_list_never_copied:
  assumes run: "copyRecursive n skipPaths skipBackends src dest w = (r, w')"
      and name: "name \<in> set q"
      and skip: "(skipPaths = SKIP_PATHS \<and>
                   name \<in> {''node_modules'', ''www'', ''__pycache__'', ''.DS_Store''})
                 \<or> (skipPaths = SKIP_INLINE \<and> name \<in> {''node_modules'', ''www''})"
  shows "lookup (disk w') (dest @ q) = lookup (disk w) (dest @ q)
         \<and> (wf_fs (disk w) \<and> \<not> existsSync (disk w) dest \<longrightarrow>
              \<not> existsSync (disk w') (dest @ q))"
proof -
  from skip have "name \<in> set skipPaths" by (auto simp: SKIP_PATHS_def SKIP_INLINE_def)
  with touched_not_skipped [of skipPaths skipBackends dest q name] name
  have "\<not> touched skipPaths skipBackends dest (dest @ q)" by blast
  with copy_grows(1) [OF run] have same: "lookup (disk w') (dest @ q) = lookup (disk w) (dest @ q)"
    by (auto simp: grows_def)
  moreover have "lookup (disk w) (dest @ q) = None" if "wf_fs (disk w)" "\<not> existsSync (disk w) dest"
    using that by (auto simp: existsSync_def intro: wf_fs_absent_below)
  ultimately show ?thesis by (auto simp: existsSync_def)
qed

lemma sample_wf: "wf_fs sample_disk"
  by code_simp

theorem C6_skip_list_witness:
  "\<not> existsSync
       (disk (snd (copyRecursive 10 SKIP_PATHS [] [''cli'', ''templates'', ''1-basic'']
                     [''home'', ''demo''] (sample_world []))))
       ([''home'', ''demo''] @ [''node_modules'', ''x.js''])
   \<and> existsSync sample_disk [''cli'', ''templates'', ''1-basic'', ''node_modules'', ''x.js'']
   \<and> fst (copyRecursive 10 SKIP_PATHS [] [''cli'', ''templates'', ''1-basic'']
              [''home'', ''demo''] (sample_world [])) = Inr ()"
proof -
  let ?run = "copyRecursive 10 SKIP_PATHS [] [''cli'', ''templates'', ''1-basic'']
                [''home'', ''demo''] (sample_world [])"
  have 1: "?run = (fst ?run, snd ?run)" by simp
  have 2: "''node_modules'' \<in> set [''node_modules'', ''x.js'']" by simp
  have 3: "wf_fs (disk (sample_world []))" by (simp add: sample_world_def sample_wf)
  have 4: "\<not> existsSync (disk (sample_world [])) [''home'', ''demo'']" by code_simp
  have 5: "existsSync sample_disk [''cli'', ''templates'', ''1-basic'', ''node_modules'', ''x.js'']"
    by code_simp
  have 6: "fst ?run = Inr ()" by code_simp
  from C6_skip_list_never_copied [OF 1 2] 3 4 5 6 show ?thesis by simp
qed

text \<open>
  The claim C6 as stated fails in the earliest revision, whose copy skips only
  \<^verbatim>\<open>node_modules\<close> and \<^verbatim>\<open>www\<close>: a completed run copies the directory \<^verbatim>\<open>py/__pycache__\<close>
  of the template into the target.
\<close>

theorem C6_earliest_revision_copies_pycache_counterexample:
  "fst (main_inl 10 sample_runtime [''demo''] (sample_world [''1'', ''3'', ''n''])) = Exited 0
   \<and> lookup (disk (snd (main_inl 10 sample_runtime [''demo''] (sample_world [''1'', ''3'', ''n''])))) 
        [''home'', ''demo'', ''py'', ''__pycache__''] = Some Dir"
  by code_simp

subsection \<open>A copy into a fresh destination is complete\<close>

text \<open>
  With enough fuel, a copy of a directory into a destination that does not exist, outside
  the source and with no file on the way to it, completes, and every path of the source
  that has no skipped segment is in the destination afterwards, with the same entry.
\<close>

lemma wf_fs_dir_above:
  assumes "wf_fs files" "lookup files (p @ q) \<noteq> None" "q \<noteq> []"
  shows "lookup files p = Some Dir"
  using assms(2,3)
proof (induction q rule: rev_induct)
  case Nil
  then show ?case by simp
next
  case (snoc x q)
  from snoc.prems(1) have "lookup files ((p @ q) @ [x]) \<noteq> None" by simp
  with assms(1) have d: "lookup files (p @ q) = Some Dir" by (rule wf_fs_parent)
  show ?case
  proof (cases "q = []")
    case True
    with d show ?thesis by simp
  next
    case False
    with d snoc.IH show ?thesis by simp
  qed
qed

lemma update_absent: "map_of files k = None \<Longrightarrow> AList.update k v files = files @ [(k, v)]"
  by (induction files) (auto split: if_splits)

lemma wf_fs_update_new:
  assumes wf: "wf_fs files" and p: "p \<noteq> []" "lookup files (butlast p) = Some Dir"
      and new: "lookup files p = None"
  shows "wf_fs (AList.update p e files)"
proof -
  from new p(1) have m: "map_of files p = None" by (simp add: lookup_def)
  have d: "distinct (map fst (AList.update p e files))"
    using wf by (simp add: wf_fs_def distinct_update)
  have "q \<noteq> [] \<and> lookup (AList.update p e files) (butlast q) = Some Dir"
    if "(q, e') \<in> set (AList.update p e files)" for q e'
  proof -
    from that m consider "(q, e') \<in> set files" | "q = p"
      by (auto simp: update_absent)
    then show ?thesis
    proof cases
      case 1
      with wf have q: "q \<noteq> []" "lookup files (butlast q) = Some Dir"
        by (auto simp: wf_fs_def list_all_iff)
      with new have "butlast q \<noteq> p" by auto
      with q p(1) show ?thesis by (simp add: lookup_update)
    next
      case 2
      from p(1) have "butlast p \<noteq> p" by (metis append_butlast_last_id append_self_conv not_Cons_self2)
      with 2 p show ?thesis by (simp add: lookup_update)
    qed
  qed
  with d show ?thesis by (auto simp: wf_fs_def list_all_iff)
qed

lemma children_distinct:
  assumes "distinct (map fst files)"
  shows "distinct (children files dir)"
proof -
  let ?xs = "filter (\<lambda>(q, e). q \<noteq> [] \<and> butlast q = dir) files"
  from assms have a: "distinct (map fst ?xs)" by (rule distinct_map_filter)
  have b: "inj_on last (set (map fst ?xs))"
  proof (rule inj_onI)
    fix a b assume "a \<in> set (map fst ?xs)" "b \<in> set (map fst ?xs)" "last a = last b"
    then have "a \<noteq> []" "b \<noteq> []" "butlast a = butlast b" "last a = last b" by auto
    then show "a = b" by (metis append_butlast_last_id)
  qed
  have "distinct (map last (map fst ?xs))"
    by (rule iffD2 [OF distinct_map]) (rule conjI [OF a b])
  then show ?thesis by (simp only: children_def map_map)
qed


lemma mkdir_from_succeeds:
  assumes "\<forall>p. prefix p xs \<longrightarrow> isDirectory files (done @ p) \<noteq> Inr False"
  shows "\<exists>files'. mkdir_from files done xs = Inr files'"
  using assms
proof (induction xs arbitrary: files "done")
  case Nil
  then show ?case by simp
next
  case (Cons x xs)
  from Cons.prems have x: "isDirectory files (done @ [x]) \<noteq> Inr False" by auto
  show ?case
  proof (cases "lookup files (done @ [x])")
    case None
    let ?fs = "AList.update (done @ [x]) Dir files"
    have "isDirectory ?fs ((done @ [x]) @ p) \<noteq> Inr False" if "prefix p xs" for p
    proof (cases "p = []")
      case True
      then show ?thesis by (simp add: isDirectory_def lookup_update)
    next
      case False
      from that Cons.prems have "isDirectory files (done @ x # p) \<noteq> Inr False" by auto
      with False show ?thesis by (simp add: isDirectory_def lookup_update)
    qed
    then have "\<exists>files'. mkdir_from ?fs (done @ [x]) xs = Inr files'"
      by (intro Cons.IH) simp
    with None show ?thesis by simp
  next
    case (Some e)
    with x have e: "e = Dir" by (cases e) (auto simp: isDirectory_def)
    have "isDirectory files ((done @ [x]) @ p) \<noteq> Inr False" if "prefix p xs" for p
      using that Cons.prems by auto
    then have "\<exists>files'. mkdir_from files (done @ [x]) xs = Inr files'"
      by (intro Cons.IH) simp
    with Some e show ?thesis by simp
  qed
qed

lemma mkdir_from_wf:
  "mkdir_from files done xs = Inr files' \<Longrightarrow> wf_fs files \<Longrightarrow> lookup files done = Some Dir \<Longrightarrow>
   wf_fs files'"
proof (induction xs arbitrary: files "done")
  case Nil
  then show ?case by simp
next
  case (Cons x xs)
  show ?case
  proof (cases "lookup files (done @ [x])")
    case None
    let ?fs = "AList.update (done @ [x]) Dir files"
    from None Cons.prems(1) have rec: "mkdir_from ?fs (done @ [x]) xs = Inr files'" by simp
    from Cons.prems(2,3) None have "wf_fs ?fs" by (intro wf_fs_update_new) simp_all
    moreover have "lookup ?fs (done @ [x]) = Some Dir" by (simp add: lookup_update)
    ultimately show ?thesis using Cons.IH [OF rec] by simp
  next
    case (Some e)
    with Cons.prems(1) have e: "e = Dir" by (cases e) auto
    with Some Cons.prems(1) have rec: "mkdir_from files (done @ [x]) xs = Inr files'" by simp
    from Cons.IH [OF rec Cons.prems(2)] Some e show ?thesis by simp
  qed
qed

lemma mkdir_fresh:
  assumes wf: "wf_fs files"
      and nofile: "\<forall>p. prefix p dest \<longrightarrow> isDirectory files p \<noteq> Inr False"
  shows "\<exists>fs1. mkdirSync_recursive files dest = Inr fs1 \<and> wf_fs fs1 \<and> lookup fs1 dest = Some Dir
           \<and> (\<forall>p. lookup fs1 p = lookup files p \<or> (lookup files p = None \<and> prefix p dest))"
proof -
  from nofile have "\<forall>p. prefix p dest \<longrightarrow> isDirectory files ([] @ p) \<noteq> Inr False" by simp
  then obtain fs1 where mk: "mkdir_from files [] dest = Inr fs1"
    using mkdir_from_succeeds by blast
  have root: "lookup files [] = Some Dir" by (simp add: lookup_def)
  from mk wf root have "wf_fs fs1" by (rule mkdir_from_wf)
  moreover from mkdir_from_creates [OF mk root] have "lookup fs1 dest = Some Dir" by simp
  moreover have "lookup fs1 p = lookup files p \<or> (lookup files p = None \<and> prefix p dest)" for p
    using mkdir_from_lookup [OF mk, of p] by (auto simp: take_is_prefix)
  ultimately show ?thesis using mk by (auto simp: mkdirSync_recursive_def)
qed

lemma apart_below:
  assumes "\<not> prefix src dest" "\<not> prefix dest src"
  shows "\<not> prefix dest (src @ z)" "\<not> prefix (src @ z) dest"
proof -
  show "\<not> prefix dest (src @ z)"
  proof
    assume "prefix dest (src @ z)"
    moreover have "prefix src (src @ z)" by simp
    ultimately have "prefix dest src \<or> prefix src dest" by (rule prefix_same_cases)
    with assms show False by simp
  qed
  show "\<not> prefix (src @ z) dest"
    using assms(1) by (auto dest: append_prefixD)
qed

lemma apart_child:
  assumes "\<not> prefix src dest" "\<not> prefix dest src"
  shows "\<not> prefix (src @ [x]) (dest @ [x])" "\<not> prefix (dest @ [x]) (src @ [x])"
  using assms by (auto simp: prefix_snoc dest: append_prefixD)

lemma entries_complete:
  assumes rec: "\<And>src dest w.
      wf_fs (disk w) \<Longrightarrow> \<not> prefix src dest \<Longrightarrow> \<not> prefix dest src \<Longrightarrow>
      lookup (disk w) src \<noteq> None \<Longrightarrow> dest \<noteq> [] \<Longrightarrow> lookup (disk w) (butlast dest) = Some Dir \<Longrightarrow>
      \<forall>q. lookup (disk w) (dest @ q) = None \<Longrightarrow>
      \<forall>q. lookup (disk w) (src @ q) \<noteq> None \<longrightarrow> length q < n \<Longrightarrow>
      \<exists>w'. copyRecursive n sp sb src dest w = (Inr (), w') \<and> wf_fs (disk w')
          \<and> (\<forall>p. \<not> prefix dest p \<longrightarrow> lookup (disk w') p = lookup (disk w) p)
          \<and> (\<forall>q e. set q \<inter> (set sp \<union> set sb) = {} \<longrightarrow> lookup (disk w) (src @ q) = Some e
                 \<longrightarrow> lookup (disk w') (dest @ q) = Some e)"
  shows "wf_fs (disk w) \<Longrightarrow> \<not> prefix src dest \<Longrightarrow> \<not> prefix dest src \<Longrightarrow>
      lookup (disk w) dest = Some Dir \<Longrightarrow> distinct entries \<Longrightarrow>
      \<forall>x \<in> set entries. lookup (disk w) (src @ [x]) \<noteq> None \<Longrightarrow>
      \<forall>x \<in> set entries. \<forall>q. lookup (disk w) (dest @ x # q) = None \<Longrightarrow>
      \<forall>x \<in> set entries. \<forall>q. lookup (disk w) (src @ x # q) \<noteq> None \<longrightarrow> length q < n \<Longrightarrow>
      \<exists>w'. copy_entries n sp sb src dest entries w = (Inr (), w') \<and> wf_fs (disk w')
          \<and> (\<forall>p. (\<forall>x \<in> set entries. \<not> prefix (dest @ [x]) p) \<longrightarrow> lookup (disk w') p = lookup (disk w) p)
          \<and> (\<forall>x \<in> set entries. x \<notin> set sp \<union> set sb \<longrightarrow>
               (\<forall>q e. set q \<inter> (set sp \<union> set sb) = {} \<longrightarrow> lookup (disk w) (src @ x # q) = Some e
                  \<longrightarrow> lookup (disk w') (dest @ x # q) = Some e))"
proof (induction entries arbitrary: w)
  case Nil
  then show ?case by simp
next
  case (Cons x xs)
  note wf = Cons.prems(1) and apart = Cons.prems(2,3) and dir = Cons.prems(4)
  from Cons.prems(5) have dist: "distinct xs" and fresh: "x \<notin> set xs" by simp_all
  from Cons.prems(6) have ex: "\<forall>y \<in> set xs. lookup (disk w) (src @ [y]) \<noteq> None" by simp
  from Cons.prems(7) have empty: "\<forall>y \<in> set xs. \<forall>q. lookup (disk w) (dest @ y # q) = None" by simp
  from Cons.prems(8) have fuel: "\<forall>y \<in> set xs. \<forall>q. lookup (disk w) (src @ y # q) \<noteq> None \<longrightarrow> length q < n"
    by simp
  show ?case
  proof (cases "x \<in> set sp \<or> x \<in> set sb")
    case True
    from Cons.IH [OF wf apart dir dist ex empty fuel] obtain w' where
      r: "copy_entries n sp sb src dest xs w = (Inr (), w')" and wf': "wf_fs (disk w')"
      and frame: "\<forall>p. (\<forall>y \<in> set xs. \<not> prefix (dest @ [y]) p) \<longrightarrow> lookup (disk w') p = lookup (disk w) p"
      and comp: "\<forall>y \<in> set xs. y \<notin> set sp \<union> set sb \<longrightarrow>
               (\<forall>q e. set q \<inter> (set sp \<union> set sb) = {} \<longrightarrow> lookup (disk w) (src @ y # q) = Some e
                  \<longrightarrow> lookup (disk w') (dest @ y # q) = Some e)"
      by blast
    from True r have "copy_entries n sp sb src dest (x # xs) w = (Inr (), w')" by auto
    moreover from frame have
      "\<forall>p. (\<forall>y \<in> set (x # xs). \<not> prefix (dest @ [y]) p) \<longrightarrow> lookup (disk w') p = lookup (disk w) p"
      by simp
    moreover from comp True have "\<forall>y \<in> set (x # xs). y \<notin> set sp \<union> set sb \<longrightarrow>
               (\<forall>q e. set q \<inter> (set sp \<union> set sb) = {} \<longrightarrow> lookup (disk w) (src @ y # q) = Some e
                  \<longrightarrow> lookup (disk w') (dest @ y # q) = Some e)"
      by auto
    ultimately show ?thesis using wf' by blast
  next
    case False
    have "\<exists>w1. copyRecursive n sp sb (src @ [x]) (dest @ [x]) w = (Inr (), w1) \<and> wf_fs (disk w1)
          \<and> (\<forall>p. \<not> prefix (dest @ [x]) p \<longrightarrow> lookup (disk w1) p = lookup (disk w) p)
          \<and> (\<forall>q e. set q \<inter> (set sp \<union> set sb) = {} \<longrightarrow> lookup (disk w) ((src @ [x]) @ q) = Some e
                 \<longrightarrow> lookup (disk w1) ((dest @ [x]) @ q) = Some e)"
    proof (rule rec [OF wf apart_child [OF apart]])
      show "lookup (disk w) (src @ [x]) \<noteq> None" using Cons.prems(6) by simp
      show "dest @ [x] \<noteq> []" by simp
      show "lookup (disk w) (butlast (dest @ [x])) = Some Dir" using dir by simp
      show "\<forall>q. lookup (disk w) ((dest @ [x]) @ q) = None" using Cons.prems(7) by simp
      show "\<forall>q. lookup (disk w) ((src @ [x]) @ q) \<noteq> None \<longrightarrow> length q < n"
        using Cons.prems(8) by simp
    qed
    then obtain w1 where
      one: "copyRecursive n sp sb (src @ [x]) (dest @ [x]) w = (Inr (), w1)" and wf1: "wf_fs (disk w1)"
      and frame1: "\<And>p. \<not> prefix (dest @ [x]) p \<Longrightarrow> lookup (disk w1) p = lookup (disk w) p"
      and comp1: "\<And>q e. set q \<inter> (set sp \<union> set sb) = {} \<Longrightarrow> lookup (disk w) (src @ x # q) = Some e
                 \<Longrightarrow> lookup (disk w1) (dest @ x # q) = Some e"
      by auto
    have src_same: "lookup (disk w1) (src @ z) = lookup (disk w) (src @ z)" for z
    proof (rule frame1)
      show "\<not> prefix (dest @ [x]) (src @ z)"
        using apart_below(1) [OF apart, of z] by (auto dest: append_prefixD)
    qed
    have other_same: "lookup (disk w1) (dest @ y # q) = lookup (disk w) (dest @ y # q)"
      if "y \<noteq> x" for y q
      using that by (intro frame1) simp
    have dir1: "lookup (disk w1) dest = Some Dir"
      using frame1 [of dest] dir by simp
    have ex1: "\<forall>y \<in> set xs. lookup (disk w1) (src @ [y]) \<noteq> None"
      using ex src_same by simp
    have empty1: "\<forall>y \<in> set xs. \<forall>q. lookup (disk w1) (dest @ y # q) = None"
    proof (intro ballI allI)
      fix y q assume y: "y \<in> set xs"
      with fresh have "y \<noteq> x" by auto
      then have "lookup (disk w1) (dest @ y # q) = lookup (disk w) (dest @ y # q)" by (rule other_same)
      with empty y show "lookup (disk w1) (dest @ y # q) = None" by simp
    qed
    have fuel1: "\<forall>y \<in> set xs. \<forall>q. lookup (disk w1) (src @ y # q) \<noteq> None \<longrightarrow> length q < n"
      using fuel src_same by simp
    from Cons.IH [OF wf1 apart dir1 dist ex1 empty1 fuel1] obtain w' where
      r: "copy_entries n sp sb src dest xs w1 = (Inr (), w')" and wf': "wf_fs (disk w')"
      and frame: "\<And>p. \<forall>y \<in> set xs. \<not> prefix (dest @ [y]) p \<Longrightarrow> lookup (disk w') p = lookup (disk w1) p"
      and comp: "\<And>y q e. y \<in> set xs \<Longrightarrow> y \<notin> set sp \<union> set sb \<Longrightarrow>
               set q \<inter> (set sp \<union> set sb) = {} \<Longrightarrow> lookup (disk w1) (src @ y # q) = Some e
                  \<Longrightarrow> lookup (disk w') (dest @ y # q) = Some e"
      by blast
    from False one r have run: "copy_entries n sp sb src dest (x # xs) w = (Inr (), w')" by simp
    have f: "lookup (disk w') p = lookup (disk w) p"
      if "\<forall>y \<in> set (x # xs). \<not> prefix (dest @ [y]) p" for p
      using that frame [of p] frame1 [of p] by simp
    have c: "lookup (disk w') (dest @ y # q) = Some e"
      if "y \<in> set (x # xs)" "y \<notin> set sp \<union> set sb" "set q \<inter> (set sp \<union> set sb) = {}"
         "lookup (disk w) (src @ y # q) = Some e" for y q e
    proof (cases "y = x")
      case True
      with that comp1 have "lookup (disk w1) (dest @ x # q) = Some e" by simp
      moreover have "lookup (disk w') (dest @ x # q) = lookup (disk w1) (dest @ x # q)"
        using fresh by (intro frame) auto
      ultimately show ?thesis using True by simp
    next
      case False
      with that(1) have "y \<in> set xs" by simp
      moreover from that(4) src_same [of "y # q"] have "lookup (disk w1) (src @ y # q) = Some e" by simp
      ultimately show ?thesis using that(2,3) by (intro comp)
    qed
    from run wf' f c show ?thesis by blast
  qed
qed

lemma wf_fs_on_the_way:
  assumes wf: "wf_fs files" and parent: "dest \<noteq> []" "lookup files (butlast dest) = Some Dir"
      and p: "prefix p dest" "p \<noteq> dest"
  shows "lookup files p = Some Dir"
proof -
  from p obtain r where r: "dest = p @ r" "r \<noteq> []" by (auto simp: prefix_def)
  then have b: "butlast dest = p @ butlast r" by (simp add: butlast_append)
  show ?thesis
  proof (cases "butlast r = []")
    case True
    with b parent show ?thesis by simp
  next
    case False
    from parent(2) b have "lookup files (p @ butlast r) \<noteq> None" by simp
    with wf show ?thesis using False by (rule wf_fs_dir_above)
  qed
qed

lemma dir_complete:
  assumes rec: "\<And>src dest w.
      wf_fs (disk w) \<Longrightarrow> \<not> prefix src dest \<Longrightarrow> \<not> prefix dest src \<Longrightarrow>
      lookup (disk w) src \<noteq> None \<Longrightarrow> dest \<noteq> [] \<Longrightarrow> lookup (disk w) (butlast dest) = Some Dir \<Longrightarrow>
      \<forall>q. lookup (disk w) (dest @ q) = None \<Longrightarrow>
      \<forall>q. lookup (disk w) (src @ q) \<noteq> None \<longrightarrow> length q < n \<Longrightarrow>
      \<exists>w'. copyRecursive n sp sb src dest w = (Inr (), w') \<and> wf_fs (disk w')
          \<and> (\<forall>p. \<not> prefix dest p \<longrightarrow> lookup (disk w') p = lookup (disk w) p)
          \<and> (\<forall>q e. set q \<inter> (set sp \<union> set sb) = {} \<longrightarrow> lookup (disk w) (src @ q) = Some e
                 \<longrightarrow> lookup (disk w') (dest @ q) = Some e)"
    and wf: "wf_fs (disk w)"
    and apart: "\<not> prefix src dest" "\<not> prefix dest src"
    and src: "lookup (disk w) src = Some Dir"
    and empty: "\<forall>q. lookup (disk w) (dest @ q) = None"
    and nofile: "\<forall>p. prefix p dest \<longrightarrow> isDirectory (disk w) p \<noteq> Inr False"
    and fuel: "\<forall>q. lookup (disk w) (src @ q) \<noteq> None \<longrightarrow> length q < Suc n"
  shows "\<exists>w'. copyRecursive (Suc n) sp sb src dest w = (Inr (), w') \<and> wf_fs (disk w')
          \<and> (\<forall>p. \<not> prefix dest p \<longrightarrow>
                 lookup (disk w') p = lookup (disk w) p \<or> (lookup (disk w) p = None \<and> prefix p dest))
          \<and> (\<forall>q e. set q \<inter> (set sp \<union> set sb) = {} \<longrightarrow> lookup (disk w) (src @ q) = Some e
                 \<longrightarrow> lookup (disk w') (dest @ q) = Some e)"
proof -
  from mkdir_fresh [OF wf nofile] obtain fs1 where
    mk: "mkdirSync_recursive (disk w) dest = Inr fs1" and wf1: "wf_fs fs1"
    and d1: "lookup fs1 dest = Some Dir"
    and ch: "\<And>p. lookup fs1 p = lookup (disk w) p \<or> (lookup (disk w) p = None \<and> prefix p dest)"
    by blast
  let ?w1 = "w\<lparr>disk := fs1\<rparr>"
  let ?entries = "children fs1 src"
  have src_same: "lookup fs1 (src @ z) = lookup (disk w) (src @ z)" for z
    using ch [of "src @ z"] apart_below(2) [OF apart, of z] by auto
  have below_same: "lookup fs1 (dest @ x # q) = lookup (disk w) (dest @ x # q)" for x q
    using ch [of "dest @ x # q"] by auto
  from src src_same [of "[]"] have s1: "lookup fs1 src = Some Dir" by simp
  then have rd: "readdirSync fs1 src = Inr ?entries" by (simp add: readdirSync_def)
  have "\<exists>w'. copy_entries n sp sb src dest ?entries ?w1 = (Inr (), w') \<and> wf_fs (disk w')
          \<and> (\<forall>p. (\<forall>x \<in> set ?entries. \<not> prefix (dest @ [x]) p) \<longrightarrow> lookup (disk w') p = lookup (disk ?w1) p)
          \<and> (\<forall>x \<in> set ?entries. x \<notin> set sp \<union> set sb \<longrightarrow>
               (\<forall>q e. set q \<inter> (set sp \<union> set sb) = {} \<longrightarrow> lookup (disk ?w1) (src @ x # q) = Some e
                  \<longrightarrow> lookup (disk w') (dest @ x # q) = Some e))"
  proof (rule entries_complete [OF rec])
    show "wf_fs (disk ?w1)" using wf1 by simp
    show "\<not> prefix src dest" "\<not> prefix dest src" by (rule apart)+
    show "lookup (disk ?w1) dest = Some Dir" using d1 by simp
    show "distinct ?entries" using wf1 by (intro children_distinct) (simp add: wf_fs_def)
    show "\<forall>x \<in> set ?entries. lookup (disk ?w1) (src @ [x]) \<noteq> None"
      using children_exist [of fs1 src] by simp
    show "\<forall>x \<in> set ?entries. \<forall>q. lookup (disk ?w1) (dest @ x # q) = None"
      using below_same empty by simp
    show "\<forall>x \<in> set ?entries. \<forall>q. lookup (disk ?w1) (src @ x # q) \<noteq> None \<longrightarrow> length q < n"
    proof (intro ballI allI impI)
      fix x q assume "lookup (disk ?w1) (src @ x # q) \<noteq> None"
      with src_same [of "x # q"] have "lookup (disk w) (src @ x # q) \<noteq> None" by simp
      with fuel have "length (x # q) < Suc n" by blast
      then show "length q < n" by simp
    qed
  qed
  then obtain w' where
    r: "copy_entries n sp sb src dest ?entries ?w1 = (Inr (), w')" and wf': "wf_fs (disk w')"
    and frame: "\<And>p. \<forall>x \<in> set ?entries. \<not> prefix (dest @ [x]) p \<Longrightarrow> lookup (disk w') p = lookup fs1 p"
    and comp: "\<And>x q e. x \<in> set ?entries \<Longrightarrow> x \<notin> set sp \<union> set sb \<Longrightarrow>
                 set q \<inter> (set sp \<union> set sb) = {} \<Longrightarrow> lookup fs1 (src @ x # q) = Some e \<Longrightarrow>
                 lookup (disk w') (dest @ x # q) = Some e"
    by auto
  from empty have "lookup (disk w) (dest @ []) = None" by blast
  then have nd: "\<not> existsSync (disk w) dest" by (simp add: existsSync_def)
  from src have "existsSync (disk w) src" "isDirectory (disk w) src = Inr True"
    by (simp_all add: existsSync_def isDirectory_def)
  with nd mk rd r have run: "copyRecursive (Suc n) sp sb src dest w = (Inr (), w')" by simp
  have f: "lookup (disk w') p = lookup (disk w) p \<or> (lookup (disk w) p = None \<and> prefix p dest)"
    if "\<not> prefix dest p" for p
  proof -
    from that have "\<forall>x \<in> set ?entries. \<not> prefix (dest @ [x]) p" by (auto dest: append_prefixD)
    then have "lookup (disk w') p = lookup fs1 p" by (rule frame)
    with ch [of p] show ?thesis by simp
  qed
  have c: "lookup (disk w') (dest @ q) = Some e"
    if q: "set q \<inter> (set sp \<union> set sb) = {}" "lookup (disk w) (src @ q) = Some e" for q e
  proof (cases q)
    case Nil
    with q src have e: "e = Dir" by simp
    have "lookup (disk w') dest = lookup fs1 dest" by (rule frame) simp
    with d1 e Nil show ?thesis by simp
  next
    case (Cons x q')
    have "lookup (disk w) (src @ [x]) \<noteq> None"
    proof (cases "q' = []")
      case True
      with q(2) Cons show ?thesis by simp
    next
      case False
      from q(2) Cons have "lookup (disk w) ((src @ [x]) @ q') \<noteq> None" by simp
      with wf have "lookup (disk w) (src @ [x]) = Some Dir" using False by (rule wf_fs_dir_above)
      then show ?thesis by simp
    qed
    with src_same [of "[x]"] have "lookup fs1 (src @ [x]) \<noteq> None" by simp
    then have "x \<in> set ?entries" by (rule child_listed)
    moreover from q(1) Cons have "x \<notin> set sp \<union> set sb" "set q' \<inter> (set sp \<union> set sb) = {}" by auto
    moreover from q(2) Cons src_same [of "x # q'"] have "lookup fs1 (src @ x # q') = Some e" by simp
    ultimately have "lookup (disk w') (dest @ x # q') = Some e" by (rule comp)
    with Cons show ?thesis by simp
  qed
  from run wf' f c show ?thesis by blast
qed

lemma copy_complete:
  "wf_fs (disk w) \<Longrightarrow> \<not> prefix src dest \<Longrightarrow> \<not> prefix dest src \<Longrightarrow>
   lookup (disk w) src \<noteq> None \<Longrightarrow> dest \<noteq> [] \<Longrightarrow> lookup (disk w) (butlast dest) = Some Dir \<Longrightarrow>
   \<forall>q. lookup (disk w) (dest @ q) = None \<Longrightarrow>
   \<forall>q. lookup (disk w) (src @ q) \<noteq> None \<longrightarrow> length q < n \<Longrightarrow>
   \<exists>w'. copyRecursive n sp sb src dest w = (Inr (), w') \<and> wf_fs (disk w')
       \<and> (\<forall>p. \<not> prefix dest p \<longrightarrow> lookup (disk w') p = lookup (disk w) p)
       \<and> (\<forall>q e. set q \<inter> (set sp \<union> set sb) = {} \<longrightarrow> lookup (disk w) (src @ q) = Some e
              \<longrightarrow> lookup (disk w') (dest @ q) = Some e)"
proof (induction n arbitrary: src dest w)
  case 0
  from "0.prems"(4,8) have "length ([] :: string list) < 0" by (metis append_Nil2)
  then show ?case by simp
next
  case (Suc n)
  note wf = Suc.prems(1) and apart = Suc.prems(2,3) and parent = Suc.prems(5,6)
    and empty = Suc.prems(7) and fuel = Suc.prems(8)
  from Suc.prems(4) obtain entry where entry: "lookup (disk w) src = Some entry" by auto
  from empty have nd: "lookup (disk w) dest = None" by (metis append_Nil2)
  show ?case
  proof (cases entry)
    case (File c)
    let ?fs = "AList.update dest (File c) (disk w)"
    let ?w' = "w\<lparr>disk := ?fs\<rparr>"
    from entry File have "existsSync (disk w) src" "isDirectory (disk w) src = Inr False"
      "readFileSync (disk w) src = Inr c"
      by (simp_all add: existsSync_def isDirectory_def readFileSync_def)
    moreover from parent nd have "writeFileSync (disk w) dest c = Inr ?fs"
      by (simp add: writeFileSync_def)
    ultimately have run: "copyRecursive (Suc n) sp sb src dest w = (Inr (), ?w')"
      by (simp add: copyFileSync_def)
    from wf parent nd have wf': "wf_fs (disk ?w')" by (simp add: wf_fs_update_new)
    have f: "\<forall>p. \<not> prefix dest p \<longrightarrow> lookup (disk ?w') p = lookup (disk w) p"
      using parent(1) by (auto simp: lookup_update)
    have c1: "lookup (disk ?w') (dest @ q) = Some e"
      if "lookup (disk w) (src @ q) = Some e" for q e
    proof (cases "q = []")
      case True
      with that entry File parent(1) show ?thesis by (simp add: lookup_update)
    next
      case False
      from that have "lookup (disk w) (src @ q) \<noteq> None" by simp
      with wf have "lookup (disk w) src = Some Dir" using False by (rule wf_fs_dir_above)
      with entry File show ?thesis by simp
    qed
    then have c: "\<forall>q e. set q \<inter> (set sp \<union> set sb) = {} \<longrightarrow> lookup (disk w) (src @ q) = Some e
                 \<longrightarrow> lookup (disk ?w') (dest @ q) = Some e"
      by simp
    from run wf' f c have
      "copyRecursive (Suc n) sp sb src dest w = (Inr (), ?w') \<and> wf_fs (disk ?w')
       \<and> (\<forall>p. \<not> prefix dest p \<longrightarrow> lookup (disk ?w') p = lookup (disk w) p)
       \<and> (\<forall>q e. set q \<inter> (set sp \<union> set sb) = {} \<longrightarrow> lookup (disk w) (src @ q) = Some e
              \<longrightarrow> lookup (disk ?w') (dest @ q) = Some e)"
      by (intro conjI) assumption+
    then show ?thesis by (rule exI [of _ ?w'])
  next
    case Dir
    have nofile: "\<forall>p. prefix p dest \<longrightarrow> isDirectory (disk w) p \<noteq> Inr False"
    proof (intro allI impI)
      fix p assume p: "prefix p dest"
      show "isDirectory (disk w) p \<noteq> Inr False"
      proof (cases "p = dest")
        case True
        with nd show ?thesis by (simp add: isDirectory_def)
      next
        case False
        from wf parent p False have "lookup (disk w) p = Some Dir" by (rule wf_fs_on_the_way)
        then show ?thesis by (simp add: isDirectory_def)
      qed
    qed
    from entry Dir have src: "lookup (disk w) src = Some Dir" by simp
    from dir_complete [OF Suc.IH wf apart src empty nofile fuel] obtain w' where
      run: "copyRecursive (Suc n) sp sb src dest w = (Inr (), w')" and wf': "wf_fs (disk w')"
      and frame: "\<And>p. \<not> prefix dest p \<Longrightarrow>
                 lookup (disk w') p = lookup (disk w) p \<or> (lookup (disk w) p = None \<and> prefix p dest)"
      and comp: "\<forall>q e. set q \<inter> (set sp \<union> set sb) = {} \<longrightarrow> lookup (disk w) (src @ q) = Some e
                 \<longrightarrow> lookup (disk w') (dest @ q) = Some e"
      by blast
    have f1: "lookup (disk w') p = lookup (disk w) p" if "\<not> prefix dest p" for p
    proof (rule ccontr)
      assume "lookup (disk w') p \<noteq> lookup (disk w) p"
      with frame [OF that] have p: "lookup (disk w) p = None" "prefix p dest" by auto
      from that have "p \<noteq> dest" by auto
      with wf parent p(2) have "lookup (disk w) p = Some Dir" by (rule wf_fs_on_the_way)
      with p(1) show False by simp
    qed
    then have f: "\<forall>p. \<not> prefix dest p \<longrightarrow> lookup (disk w') p = lookup (disk w) p" by simp
    from run wf' f comp have
      "copyRecursive (Suc n) sp sb src dest w = (Inr (), w') \<and> wf_fs (disk w')
       \<and> (\<forall>p. \<not> prefix dest p \<longrightarrow> lookup (disk w') p = lookup (disk w) p)
       \<and> (\<forall>q e. set q \<inter> (set sp \<union> set sb) = {} \<longrightarrow> lookup (disk w) (src @ q) = Some e
              \<longrightarrow> lookup (disk w') (dest @ q) = Some e)"
      by (intro conjI) assumption+
    then show ?thesis by (rule exI [of _ w'])
  qed
qed

lemma fits_bound:
  assumes "fits n files src" "lookup files (src @ q) \<noteq> None"
  shows "length q < n"
proof (cases "src @ q = []")
  case True
  with assms(1) show ?thesis by (simp add: fits_def)
next
  case False
  with assms(2) obtain e where "map_of files (src @ q) = Some e" by (auto simp: lookup_def)
  then have "(src @ q, e) \<in> set files" by (rule map_of_SomeD)
  with assms(1) have "prefix src (src @ q) \<longrightarrow> length (src @ q) < length src + n"
    by (auto simp: fits_def list_all_iff)
  then show ?thesis by simp
qed

lemma template_copied:
  assumes wf: "wf_fs (disk w)" and new: "\<not> existsSync (disk w) dest"
      and src: "lookup (disk w) src = Some Dir"
      and outside: "\<not> prefix src dest"
      and nofile: "\<forall>p \<in> set (prefixes dest). isDirectory (disk w) p \<noteq> Inr False"
      and fuel: "fits n (disk w) src"
  shows "\<exists>w1. copyRecursive n sp sb src dest w = (Inr (), w1)
           \<and> (\<forall>q e. set q \<inter> (set sp \<union> set sb) = {} \<longrightarrow> lookup (disk w) (src @ q) = Some e
                  \<longrightarrow> lookup (disk w1) (dest @ q) = Some e)"
proof -
  from fuel obtain m where n: "n = Suc m" by (cases n) (auto simp: fits_def)
  from new have nd: "lookup (disk w) dest = None" by (simp add: existsSync_def)
  with wf have empty: "\<forall>q. lookup (disk w) (dest @ q) = None"
    by (auto intro: wf_fs_absent_below)
  have apart: "\<not> prefix dest src"
  proof
    assume "prefix dest src"
    then obtain r where "src = dest @ r" by (auto simp: prefix_def)
    with empty src show False by simp
  qed
  have nofile': "\<forall>p. prefix p dest \<longrightarrow> isDirectory (disk w) p \<noteq> Inr False"
    using nofile by (simp add: in_set_prefixes)
  have bound: "\<forall>q. lookup (disk w) (src @ q) \<noteq> None \<longrightarrow> length q < Suc m"
    using fits_bound [OF fuel] n by simp
  from dir_complete [where n = m and sp = sp and sb = sb, OF copy_complete wf outside apart src empty nofile' bound]
  show ?thesis unfolding n by blast
qed

text \<open>
  Claim C7. A run generates into a target that did not exist. When the backend R is
  selected, no path at or below \<^verbatim>\<open>py\<close> exists in the target afterwards, and when Python
  is selected none at or below \<^verbatim>\<open>r\<close>, however the run ends. When both are selected and
  the run completes, each of \<^verbatim>\<open>r\<close> and \<^verbatim>\<open>py\<close> that the template has is present in the
  target. When both are selected, the template is a directory, the target is not inside
  it, no file is on the way to the target and the bound on the recursion exceeds the
  depth of the template, the copy completes, with either skip-list, and neither subtree
  is skipped: every path at or below \<^verbatim>\<open>r\<close> or \<^verbatim>\<open>py\<close> in the template that has no segment
  of the skip-list is in the target when the run ends, with the same entry (the same
  file content, or a directory), whether or not the later steps of the run fail.
\<close>

theorem C7_backend_subtrees:
  assumes wf: "wf_fs (disk w)" "\<not> existsSync (disk w) targetDir"
      and run: "generate_esm fuel rt appName targetDir templatesDir t b claude w = (r, w')
                \<or> generate_cfg fuel rt appName targetDir templatesDir t b claude w = (r, w')
                \<or> generate_inl fuel rt appName targetDir templatesDir t b claude w = (r, w')"
  shows "(b = R \<longrightarrow> \<not> existsSync (disk w') (targetDir @ ''py'' # q))
       \<and> (b = Py \<longrightarrow> \<not> existsSync (disk w') (targetDir @ ''r'' # q))
       \<and> (b = Both \<and> r = Inr () \<longrightarrow>
            (existsSync (disk w) (templatesDir @ [t_id t, ''r''])
               \<longrightarrow> existsSync (disk w') (targetDir @ [''r'']))
          \<and> (existsSync (disk w) (templatesDir @ [t_id t, ''py''])
               \<longrightarrow> existsSync (disk w') (targetDir @ [''py''])))
       \<and> (b = Both
            \<and> lookup (disk w) (templatesDir @ [t_id t]) = Some Dir
            \<and> \<not> prefix (templatesDir @ [t_id t]) targetDir
            \<and> (\<forall>p \<in> set (prefixes targetDir). isDirectory (disk w) p \<noteq> Inr False)
            \<and> fits fuel (disk w) (templatesDir @ [t_id t])
          \<longrightarrow> fst (copyRecursive fuel SKIP_PATHS (skip_backends b) (templatesDir @ [t_id t])
                      targetDir w) = Inr ()
            \<and> fst (copyRecursive fuel SKIP_INLINE (skip_backends b) (templatesDir @ [t_id t])
                      targetDir w) = Inr ()
            \<and> (\<forall>name \<in> {''r'', ''py''}. \<forall>e.
                  set (name # q) \<inter> set SKIP_PATHS = {}
                  \<and> lookup (disk w) (templatesDir @ t_id t # name # q) = Some e
                  \<longrightarrow> lookup (disk w') (targetDir @ name # q) = Some e))"
proof -
  let ?src = "templatesDir @ [t_id t]"
  from run obtain sp r1 w1 where
    copy: "copyRecursive fuel sp (skip_backends b) ?src targetDir w = (r1, w1)"
    and same: "\<And>p. \<forall>name \<in> set generated_names. p \<noteq> targetDir @ [name] \<Longrightarrow>
                 lookup (disk w') p = lookup (disk w1) p"
    and ok: "r = Inr () \<Longrightarrow> r1 = Inr ()"
    and sp: "''r'' \<notin> set sp" "''py'' \<notin> set sp" "set sp \<subseteq> set SKIP_PATHS"
  proof (elim disjE)
    assume "generate_esm fuel rt appName targetDir templatesDir t b claude w = (r, w')"
    then show ?thesis
      by (rule after_copy_esm) (rule that, auto simp: SKIP_PATHS_def)
  next
    assume "generate_cfg fuel rt appName targetDir templatesDir t b claude w = (r, w')"
    then show ?thesis
      by (rule after_copy_cfg) (rule that, auto simp: SKIP_PATHS_def)
  next
    assume "generate_inl fuel rt appName targetDir templatesDir t b claude w = (r, w')"
    then show ?thesis
      by (rule after_copy_inl) (rule that, auto simp: SKIP_INLINE_def SKIP_PATHS_def)
  qed
  have absent: "\<not> existsSync (disk w') (targetDir @ name # q)" if "name \<in> set (skip_backends b)"
    "name \<notin> set generated_names" for name
    using skipped_stays_absent [OF wf copy same, of name "name # q"] that by simp
  have present: "existsSync (disk w') (targetDir @ [name])"
    if "b = Both" "r = Inr ()" "existsSync (disk w) (templatesDir @ [t_id t, name])"
       "name \<notin> set sp" "name \<notin> set generated_names" for name
  proof -
    from that(3) have child: "lookup (disk w) ((templatesDir @ [t_id t]) @ [name]) \<noteq> None"
      by (simp add: existsSync_def)
    with wf(1) have src: "lookup (disk w) (templatesDir @ [t_id t]) = Some Dir"
      by (rule wf_fs_parent)
    from ok that(2) copy have c: "copyRecursive fuel sp (skip_backends b) (templatesDir @ [t_id t]) targetDir w = (Inr (), w1)"
      by simp
    from that(1) have "name \<notin> set (skip_backends b)" by (simp add: skip_backends_def)
    with copyRecursive_copies_child [OF c src child that(4)]
    have "lookup (disk w1) (targetDir @ [name]) \<noteq> None" .
    moreover have "\<forall>g \<in> set generated_names. targetDir @ [name] \<noteq> targetDir @ [g]"
      using that(5) by auto
    ultimately show ?thesis using same [of "targetDir @ [name]"] by (simp add: existsSync_def)
  qed
  have g: "''r'' \<notin> set generated_names" "''py'' \<notin> set generated_names"
    by (simp_all add: generated_names_def)
  have whole:
    "fst (copyRecursive fuel SKIP_PATHS (skip_backends b) ?src targetDir w) = Inr ()
     \<and> fst (copyRecursive fuel SKIP_INLINE (skip_backends b) ?src targetDir w) = Inr ()
     \<and> (\<forall>name \<in> {''r'', ''py''}. \<forall>e.
            set (name # q) \<inter> set SKIP_PATHS = {}
            \<and> lookup (disk w) (templatesDir @ t_id t # name # q) = Some e
            \<longrightarrow> lookup (disk w') (targetDir @ name # q) = Some e)"
    if both: "b = Both" and src: "lookup (disk w) ?src = Some Dir"
      and outside: "\<not> prefix ?src targetDir"
      and nofile: "\<forall>p \<in> set (prefixes targetDir). isDirectory (disk w) p \<noteq> Inr False"
      and fuel: "fits fuel (disk w) ?src"
  proof (intro conjI ballI allI impI)
    from template_copied [OF wf src outside nofile fuel, of SKIP_PATHS "skip_backends b"]
    show "fst (copyRecursive fuel SKIP_PATHS (skip_backends b) ?src targetDir w) = Inr ()"
      by auto
    from template_copied [OF wf src outside nofile fuel, of SKIP_INLINE "skip_backends b"]
    show "fst (copyRecursive fuel SKIP_INLINE (skip_backends b) ?src targetDir w) = Inr ()"
      by auto
  next
    fix name e
    assume name: "name \<in> {''r'', ''py''}"
      and e: "set (name # q) \<inter> set SKIP_PATHS = {}
              \<and> lookup (disk w) (templatesDir @ t_id t # name # q) = Some e"
    from template_copied [OF wf src outside nofile fuel, of sp "skip_backends b"] copy
    have comp: "\<forall>q e. set q \<inter> (set sp \<union> set (skip_backends b)) = {} \<longrightarrow>
                  lookup (disk w) (?src @ q) = Some e \<longrightarrow> lookup (disk w1) (targetDir @ q) = Some e"
      by auto
    from e sp(3) both have "set (name # q) \<inter> (set sp \<union> set (skip_backends b)) = {}"
      by (auto simp: skip_backends_def)
    moreover from e have "lookup (disk w) (?src @ name # q) = Some e" by simp
    ultimately have "lookup (disk w1) (targetDir @ name # q) = Some e" using comp by blast
    moreover have "\<forall>g \<in> set generated_names. targetDir @ name # q \<noteq> targetDir @ [g]"
      using name g by auto
    ultimately show "lookup (disk w') (targetDir @ name # q) = Some e"
      using same [of "targetDir @ name # q"] by simp
  qed
  show ?thesis
  proof (intro conjI impI)
    assume "b = R" then show "\<not> existsSync (disk w') (targetDir @ ''py'' # q)"
      using absent [of "''py''"] g by (simp add: skip_backends_def)
  next
    assume "b = Py" then show "\<not> existsSync (disk w') (targetDir @ ''r'' # q)"
      using absent [of "''r''"] g by (simp add: skip_backends_def)
  next
    assume "b = Both \<and> r = Inr ()" "existsSync (disk w) (templatesDir @ [t_id t, ''r''])"
    then show "existsSync (disk w') (targetDir @ [''r''])"
      using present [of "''r''"] g sp by simp
  next
    assume "b = Both \<and> r = Inr ()" "existsSync (disk w) (templatesDir @ [t_id t, ''py''])"
    then show "existsSync (disk w') (targetDir @ [''py''])"
      using present [of "''py''"] g sp by simp
  next
    assume a: "b = Both
            \<and> lookup (disk w) (templatesDir @ [t_id t]) = Some Dir
            \<and> \<not> prefix (templatesDir @ [t_id t]) targetDir
            \<and> (\<forall>p \<in> set (prefixes targetDir). isDirectory (disk w) p \<noteq> Inr False)
            \<and> fits fuel (disk w) (templatesDir @ [t_id t])"
    with whole show "fst (copyRecursive fuel SKIP_PATHS (skip_backends b) (templatesDir @ [t_id t])
                      targetDir w) = Inr ()" by blast
    from a whole show "fst (copyRecursive fuel SKIP_INLINE (skip_backends b) (templatesDir @ [t_id t])
                      targetDir w) = Inr ()" by blast
    from a whole show "\<forall>name \<in> {''r'', ''py''}. \<forall>e.
                  set (name # q) \<inter> set SKIP_PATHS = {}
                  \<and> lookup (disk w) (templatesDir @ t_id t # name # q) = Some e
                  \<longrightarrow> lookup (disk w') (targetDir @ name # q) = Some e" by blast
  qed
qed

theorem C7_backend_subtrees_witness:
  "\<not> existsSync
       (disk (snd (generate_cfg 10 sample_runtime ''demo'' [''home'', ''demo'']
                     [''cli'', ''templates''] (default_template ''1-basic'') R False
                     (sample_world []))))
       ([''home'', ''demo''] @ ''py'' # [''app.py''])
   \<and> existsSync
       (disk (snd (generate_cfg 10 sample_runtime ''demo'' [''home'', ''demo'']
                     [''cli'', ''templates''] (default_template ''1-basic'') Both False
                     (sample_world []))))
       ([''home'', ''demo''] @ [''py''])
   \<and> fst (copyRecursive 10 SKIP_PATHS (skip_backends Both)
             ([''cli'', ''templates''] @ [t_id (default_template ''1-basic'')])
             [''home'', ''demo''] (sample_world [])) = Inr ()
   \<and> lookup
       (disk (snd (generate_cfg 10 sample_runtime ''demo'' [''home'', ''demo'']
                     [''cli'', ''templates''] (default_template ''1-basic'') Both False
                     (sample_world []))))
       ([''home'', ''demo''] @ ''r'' # [''app.R'']) = Some (File ''R'')
   \<and> lookup
       (disk (snd (generate_cfg 10 sample_runtime ''demo'' [''home'', ''demo'']
                     [''cli'', ''templates''] (default_template ''1-basic'') Both False
                     (sample_world []))))
       ([''home'', ''demo''] @ ''py'' # [''app.py'']) = Some (File ''py'')"
proof -
  let ?run = "\<lambda>b. generate_cfg 10 sample_runtime ''demo'' [''home'', ''demo'']
                     [''cli'', ''templates''] (default_template ''1-basic'') b False
                     (sample_world [])"
  let ?src = "[''cli'', ''templates''] @ [t_id (default_template ''1-basic'')]"
  have wf: "wf_fs (disk (sample_world []))" by (simp add: sample_world_def sample_wf)
  have new: "\<not> existsSync (disk (sample_world [])) [''home'', ''demo'']" by code_simp
  have run: "generate_esm 10 sample_runtime ''demo'' [''home'', ''demo'']
                     [''cli'', ''templates''] (default_template ''1-basic'') b False
                     (sample_world []) = (fst (?run b), snd (?run b))
             \<or> ?run b = (fst (?run b), snd (?run b))
             \<or> generate_inl 10 sample_runtime ''demo'' [''home'', ''demo'']
                     [''cli'', ''templates''] (default_template ''1-basic'') b False
                     (sample_world []) = (fst (?run b), snd (?run b))" for b
    by simp
  have ok: "fst (?run Both) = Inr ()" by code_simp
  have has: "existsSync (disk (sample_world []))
               ([''cli'', ''templates''] @ [t_id (default_template ''1-basic''), ''py''])"
    by code_simp
  have 1: "lookup (disk (sample_world [])) ?src = Some Dir" by code_simp
  have 2: "\<not> prefix ?src [''home'', ''demo'']" by code_simp
  have 3: "\<forall>p \<in> set (prefixes [''home'', ''demo'']). isDirectory (disk (sample_world [])) p \<noteq> Inr False"
    by code_simp
  have 4: "fits 10 (disk (sample_world [])) ?src" by code_simp
  have r: "set (''r'' # [''app.R'']) \<inter> set SKIP_PATHS = {}
           \<and> lookup (disk (sample_world []))
                ([''cli'', ''templates''] @ t_id (default_template ''1-basic'') # ''r'' # [''app.R''])
              = Some (File ''R'')"
    by code_simp
  have py: "set (''py'' # [''app.py'']) \<inter> set SKIP_PATHS = {}
           \<and> lookup (disk (sample_world []))
                ([''cli'', ''templates''] @ t_id (default_template ''1-basic'') # ''py'' # [''app.py''])
              = Some (File ''py'')"
    by code_simp
  have hyp: "Both = Both \<and> lookup (disk (sample_world [])) ?src = Some Dir
             \<and> \<not> prefix ?src [''home'', ''demo'']
             \<and> (\<forall>p \<in> set (prefixes [''home'', ''demo'']).
                   isDirectory (disk (sample_world [])) p \<noteq> Inr False)
             \<and> fits 10 (disk (sample_world [])) ?src"
    using 1 2 3 4 by (intro conjI) (rule refl, assumption+)
  note T = C7_backend_subtrees [OF wf new run]
  note whole = T [THEN conjunct2, THEN conjunct2, THEN conjunct2, THEN mp, OF hyp]
  note each = whole [THEN conjunct2, THEN conjunct2]
  have a: "\<not> existsSync (disk (snd (?run R))) ([''home'', ''demo''] @ ''py'' # [''app.py''])"
    using T [of R "[''app.py'']"] by simp
  have b: "existsSync (disk (snd (?run Both))) ([''home'', ''demo''] @ [''py''])"
    using T [of Both "[]"] ok has by simp
  have c: "fst (copyRecursive 10 SKIP_PATHS (skip_backends Both) ?src [''home'', ''demo'']
                  (sample_world [])) = Inr ()"
    by (rule whole [THEN conjunct1])
  have d: "lookup (disk (snd (?run Both))) ([''home'', ''demo''] @ ''r'' # [''app.R''])
             = Some (File ''R'')"
    by (rule each [of "[''app.R'']", THEN bspec, THEN spec, THEN mp, OF _ r]) simp
  have e: "lookup (disk (snd (?run Both))) ([''home'', ''demo''] @ ''py'' # [''app.py''])
             = Some (File ''py'')"
    by (rule each [of "[''app.py'']", THEN bspec, THEN spec, THEN mp, OF _ py]) simp
  from a b c d e show ?thesis by (intro conjI)
qed

section \<open>Answers that are not numbers\<close>

text \<open>
  Claim C10. Let the answer to the template question, or to the backend question after
  a valid template answer, be a non-empty string for which \<^verbatim>\<open>parseInt\<close> yields \<^verbatim>\<open>NaN\<close>.
  Then in every revision the range check passes, so no invalid-choice message is
  printed; the selection is \<^verbatim>\<open>undefined\<close>, reading its \<^verbatim>\<open>id\<close> throws a \<^verbatim>\<open>TypeError\<close>, and
  the run ends in the catch-all handler: the only message is the error of that handler,
  the exit code is 1, and the file system is unchanged.
\<close>

theorem C10_nan_answer_reaches_catch:
  assumes nan: "parseInt answer = None" "answer \<noteq> []"
  shows "(reaches_questions in_SKIP_PATHS rt (butlast (dirname rt) @ [''templates'']) appName w ts
          \<and> (stdin w = answer # rest
             \<or> stdin w = t # answer # rest \<and> valid_choice t ''2'' (length ts))
          \<longrightarrow> main_esm fuel rt [appName] w
                = (Exited 1, print (ErrCreatingApp TypeError) (w\<lparr>stdin := rest\<rparr>)))
       \<and> (reaches_questions in_SKIP_PATHS rt (butlast (dirname rt) @ [''templates'']) appName w ts
          \<and> (stdin w = answer # rest
             \<or> stdin w = t # answer # rest \<and> valid_choice t ''1'' (length ts))
          \<longrightarrow> main_cfg fuel rt [appName] w
                = (Exited 1, print (ErrCreatingApp TypeError) (w\<lparr>stdin := rest\<rparr>)))
       \<and> (require_resolve rt = Some resolved
          \<and> reaches_questions starts_with_dot rt (butlast (butlast resolved) @ [''templates''])
               appName w ts
          \<and> (stdin w = answer # rest
             \<or> stdin w = t # answer # rest \<and> valid_choice t ''1'' (length ts))
          \<longrightarrow> main_inl fuel rt [appName] w
                = (Exited 1, print (ErrCreatingApp TypeError) (w\<lparr>stdin := rest\<rparr>)))"
proof (intro conjI impI)
  assume a: "reaches_questions in_SKIP_PATHS rt (butlast (dirname rt) @ [''templates'']) appName w ts
          \<and> (stdin w = answer # rest
             \<or> stdin w = t # answer # rest \<and> valid_choice t ''2'' (length ts))"
  then have m: "main_esm fuel rt [appName] w =
           finish (try_block_esm fuel rt appName (path_resolve rt appName)
                     (butlast (dirname rt) @ [''templates'']) ts w)"
    by (intro main_esm_reaches_try) (auto simp: reaches_questions_def)
  from a consider "stdin w = answer # rest"
    | i where "stdin w = t # answer # rest" "choice_index t ''2'' = Some i" "0 \<le> i" "i < int (length ts)"
    by (auto simp: valid_choice_def split: option.splits)
  then show "main_esm fuel rt [appName] w
                = (Exited 1, print (ErrCreatingApp TypeError) (w\<lparr>stdin := rest\<rparr>))"
    using m nan by cases (simp_all add: try_block_esm_nan_template try_block_esm_nan_backend)
next
  assume a: "reaches_questions in_SKIP_PATHS rt (butlast (dirname rt) @ [''templates'']) appName w ts
          \<and> (stdin w = answer # rest
             \<or> stdin w = t # answer # rest \<and> valid_choice t ''1'' (length ts))"
  then have m: "main_cfg fuel rt [appName] w =
           finish (try_block_cfg fuel rt appName (path_resolve rt appName)
                     (butlast (dirname rt) @ [''templates'']) ts w)"
    by (intro main_cfg_reaches_try) (auto simp: reaches_questions_def)
  from a consider "stdin w = answer # rest"
    | i where "stdin w = t # answer # rest" "choice_index t ''1'' = Some i" "0 \<le> i" "i < int (length ts)"
    by (auto simp: valid_choice_def split: option.splits)
  then show "main_cfg fuel rt [appName] w
                = (Exited 1, print (ErrCreatingApp TypeError) (w\<lparr>stdin := rest\<rparr>))"
    using m nan by cases (simp_all add: try_block_cfg_nan_template try_block_cfg_nan_backend)
next
  assume a: "require_resolve rt = Some resolved
          \<and> reaches_questions starts_with_dot rt (butlast (butlast resolved) @ [''templates''])
               appName w ts
          \<and> (stdin w = answer # rest
             \<or> stdin w = t # answer # rest \<and> valid_choice t ''1'' (length ts))"
  then have m: "main_inl fuel rt [appName] w =
           finish (try_block_inl fuel rt appName (path_resolve rt appName)
                     (butlast (butlast resolved) @ [''templates'']) ts w)"
    by (intro main_inl_reaches_try) (auto simp: reaches_questions_def)
  from a consider "stdin w = answer # rest"
    | i where "stdin w = t # answer # rest" "choice_index t ''1'' = Some i" "0 \<le> i" "i < int (length ts)"
    by (auto simp: valid_choice_def split: option.splits)
  then show "main_inl fuel rt [appName] w
                = (Exited 1, print (ErrCreatingApp TypeError) (w\<lparr>stdin := rest\<rparr>))"
    using m nan by cases (simp_all add: try_block_inl_nan_template try_block_inl_nan_backend)
qed

theorem C10_nan_answer_witness:
  "parseInt ''abc'' = None
   \<and> main_esm 10 sample_runtime [''demo''] (sample_world [''2'', ''abc'', ''1''])
       = (Exited 1, \<lparr>disk = sample_disk, printed = [ErrCreatingApp TypeError], stdin = [''1'']\<rparr>)
   \<and> main_cfg 10 sample_runtime [''demo''] (sample_world [''2'', ''abc'', ''1''])
       = (Exited 1, \<lparr>disk = sample_disk, printed = [ErrCreatingApp TypeError], stdin = [''1'']\<rparr>)
   \<and> main_inl 10 sample_runtime [''demo''] (sample_world [''2'', ''abc'', ''1''])
       = (Exited 1, \<lparr>disk = sample_disk, printed = [ErrCreatingApp TypeError], stdin = [''1'']\<rparr>)"
proof -
  let ?w = "sample_world [''2'', ''abc'', ''1'']"
  let ?ts = "projr (fst (getAvailableTemplates in_SKIP_PATHS sample_runtime [''cli'', ''templates''] ?w))"
  have 1: "parseInt ''abc'' = None" by code_simp
  have 2: "''abc'' \<noteq> []" by simp
  have 3: "reaches_questions in_SKIP_PATHS sample_runtime
             (butlast (dirname sample_runtime) @ [''templates'']) ''demo'' ?w ?ts"
    by code_simp
  have 4: "reaches_questions starts_with_dot sample_runtime
             (butlast (butlast [''cli'', ''dist'', ''index.js'']) @ [''templates'']) ''demo'' ?w ?ts"
    by code_simp
  have 5: "require_resolve sample_runtime = Some [''cli'', ''dist'', ''index.js'']"
    by (simp add: sample_runtime_def)
  have 6: "stdin ?w = ''2'' # ''abc'' # [''1'']" by (simp add: sample_world_def)
  have 7: "valid_choice ''2'' ''2'' (length ?ts)" "valid_choice ''2'' ''1'' (length ?ts)"
    by code_simp+
  from C10_nan_answer_reaches_catch [OF 1 2, where rt = sample_runtime and appName = "''demo''"
         and w = ?w and ts = ?ts and rest = "[''1'']" and t = "''2''"
         and resolved = "[''cli'', ''dist'', ''index.js'']" and fuel = 10] 1 3 4 5 6 7
  show ?thesis by (simp add: sample_world_def print_def)
qed

section \<open>The manifest patcher\<close>

lemma merge_properties_object:
  assumes "merge_properties mode skipKey (JObj ps) kvs = Inr pj'" "distinct (map fst kvs)"
  shows "\<exists>ps'. pj' = JObj ps' \<and>
           (\<forall>k. k \<notin> fst ` set kvs \<or> skipKey k \<longrightarrow> map_of ps' k = map_of ps k) \<and>
           (\<forall>(k, v) \<in> set kvs. \<not> skipKey k \<longrightarrow>
                map_of ps' k = Some (spread2 (map_of ps k) (Some v)))"
  using assms
proof (induction kvs arbitrary: ps)
  case Nil
  then show ?case by auto
next
  case (Cons kv kvs)
  obtain k v where kv: "kv = (k, v)" by (cases kv)
  show ?case
  proof (cases "skipKey k")
    case True
    with Cons.prems kv have "merge_properties mode skipKey (JObj ps) kvs = Inr pj'"
      "distinct (map fst kvs)" by auto
    from Cons.IH [OF this] obtain ps' where ps': "pj' = JObj ps'"
      "\<forall>k. k \<notin> fst ` set kvs \<or> skipKey k \<longrightarrow> map_of ps' k = map_of ps k"
      "\<forall>(k, v) \<in> set kvs. \<not> skipKey k \<longrightarrow> map_of ps' k = Some (spread2 (map_of ps k) (Some v))"
      by blast
    with True kv show ?thesis by auto
  next
    case False
    let ?x = "spread2 (map_of ps k) (Some v)"
    from Cons.prems False kv have np: "k \<noteq> ''__proto__''"
      and rest: "merge_properties mode skipKey (JObj (AList.update k ?x ps)) kvs = Inr pj'"
      by (auto simp: merge_property_def assign_def own_property_def split: if_splits)
    from Cons.prems kv have d: "distinct (map fst kvs)" "k \<notin> fst ` set kvs" by auto
    from Cons.IH [OF rest d(1)] obtain ps' where ps': "pj' = JObj ps'"
      "\<forall>k'. k' \<notin> fst ` set kvs \<or> skipKey k' \<longrightarrow> map_of ps' k' = map_of (AList.update k ?x ps) k'"
      "\<forall>(k', v') \<in> set kvs. \<not> skipKey k' \<longrightarrow>
          map_of ps' k' = Some (spread2 (map_of (AList.update k ?x ps) k') (Some v'))"
      by blast
    have 1: "map_of ps' k' = map_of ps k'" if "k' \<notin> fst ` set (kv # kvs) \<or> skipKey k'" for k'
    proof -
      from that False kv have "k' \<noteq> k" by auto
      with ps'(2) that show ?thesis by (auto simp: update_conv')
    qed
    have 2: "map_of ps' k' = Some (spread2 (map_of ps k') (Some v'))"
      if "(k', v') \<in> set (kv # kvs)" "\<not> skipKey k'" for k' v'
    proof (cases "(k', v') = (k, v)")
      case True
      with ps'(2) d(2) show ?thesis by (auto simp: update_conv')
    next
      case False
      with that kv have in_rest: "(k', v') \<in> set kvs" by auto
      with d(2) have "k' \<noteq> k" by force
      with ps'(3) in_rest that(2) show ?thesis by (auto simp: update_conv')
    qed
    from ps'(1) 1 2 show ?thesis by blast
  qed
qed

lemma apply_custom_esm_unusable:
  assumes "usable_json rt (disk w) p = None"
  shows "apply_custom_esm rt p b pj w = Inr (pj, print WarnPackageConfig w)"
  using assms
  by (auto simp: apply_custom_esm_def usable_json_def get_property_def
           split: sum.splits option.splits json.splits)

lemma apply_config_cfg_unusable:
  assumes "usable_json rt (disk w) p = None"
  shows "apply_config_cfg rt p b pj w = Inr (pj, print WarnPackageConfig w)"
  using assms
  by (auto simp: apply_config_cfg_def usable_json_def get_property_def
           split: sum.splits option.splits json.splits)

lemma unlink_file:
  "lookup files p = Some (File c) \<Longrightarrow> unlinkSync files p = Inr (AList.delete p files)"
  by (simp add: unlinkSync_def)

lemma assign_twice_no_throw:
  "assign mode pj0 k0 v0 = Inr pj1 \<Longrightarrow> assign mode pj1 k v \<noteq> Inl (Throw x)"
  by (auto simp: assign_def split: json.splits strictness.splits if_splits)

lemma merge_no_throw:
  "assign mode pj0 k0 v0 = Inr pj1 \<Longrightarrow> merge_properties mode skipKey pj1 kvs \<noteq> Inl (Throw x)"
proof (induction kvs arbitrary: pj0 pj1 k0 v0)
  case Nil
  then show ?case by simp
next
  case (Cons kv kvs)
  obtain k v where kv: "kv = (k, v)" by (cases kv)
  show ?case
  proof (cases "skipKey k")
    case True
    with Cons kv show ?thesis by simp
  next
    case False
    let ?x = "spread2 (own_property pj1 k) (Some v)"
    show ?thesis
    proof (cases "assign mode pj1 k ?x")
      case (Inl a)
      with assign_twice_no_throw [OF Cons.prems, of k ?x x] have "a \<noteq> Throw x" by auto
      with Inl False kv show ?thesis by (simp add: merge_property_def)
    next
      case (Inr pj2)
      from Cons.IH [OF Inr] Inr False kv show ?thesis by (simp add: merge_property_def)
    qed
  qed
qed

lemma usable_parts:
  assumes "usable_json rt files p = Some cfg"
  obtains content c where "readFileSync files p = Inr content" "JSON_parse rt content = Some cfg"
    "cfg \<noteq> JNull" "lookup files p = Some (File c)"
  using assms
  by (auto simp: usable_json_def readFileSync_def
           split: sum.splits option.splits json.splits entry.splits)

lemma entry_of_usable:
  assumes "usable_json rt files p = Some cfg" "cfg \<noteq> JNull"
  obtains bc where "get_property cfg (backend_id b) = Inr bc"
    "backend_entry rt files p b = (if truthy bc then bc else None)"
proof -
  from assms(2) obtain bc where "get_property cfg (backend_id b) = Inr bc"
    by (cases cfg) (auto simp: get_property_def)
  with assms(1) that show ?thesis by (simp add: backend_entry_def)
qed

lemma apply_custom_esm_usable:
  assumes pre: "assign Strict pj0 k0 v0 = Inr pj"
      and u: "usable_json rt (disk w) p = Some cfg"
      and run: "apply_custom_esm rt p b pj w = Inr (pj', w1)"
  shows "w1 = w\<lparr>disk := AList.delete p (disk w)\<rparr> \<and>
         (case backend_entry rt (disk w) p b of
            None \<Rightarrow> pj' = pj
          | Some entry \<Rightarrow>
              merge_properties Strict (\<lambda>key. False) pj (spread_properties (Some entry))
                = Inr pj')"
proof -
  from u obtain content c where t: "readFileSync (disk w) p = Inr content"
    "JSON_parse rt content = Some cfg" "cfg \<noteq> JNull" and c: "lookup (disk w) p = Some (File c)"
    by (rule usable_parts)
  from u t(3) obtain bc where bc: "get_property cfg (backend_id b) = Inr bc"
    and be: "backend_entry rt (disk w) p b = (if truthy bc then bc else None)"
    by (rule entry_of_usable)
  show ?thesis
  proof (cases "truthy bc")
    case False
    with run t bc c be show ?thesis
      by (auto simp: apply_custom_esm_def unlink_file)
  next
    case True
    then obtain entry where e: "bc = Some entry" by (cases bc) auto
    from run t bc c True e merge_no_throw [OF pre, of "\<lambda>key. False" "spread_properties (Some entry)"] be
    show ?thesis
      by (auto simp: apply_custom_esm_def unlink_file split: sum.splits abort.splits)
  qed
qed

lemma replace_scripts_result:
  assumes "assign Sloppy pj0 k0 v0 = Inr pj" "entry \<noteq> JNull"
  obtains pj1 where "replace_scripts pj entry = Inr pj1" "assign Sloppy pj0 k0 v0 = Inr pj1 \<or>
      (\<exists>s. assign Sloppy pj ''scripts'' s = Inr pj1)"
  | "replace_scripts pj entry = Inl Unmodelled"
proof -
  from assms(2) obtain s where s: "get_property entry ''scripts'' = Inr s"
    by (cases entry) (auto simp: get_property_def)
  show ?thesis
  proof (cases "truthy s")
    case False
    with s assms(1) that(1) show ?thesis by (simp add: replace_scripts_def)
  next
    case True
    show ?thesis
    proof (cases "assign Sloppy pj ''scripts'' (the s)")
      case (Inl a)
      with assign_twice_no_throw [OF assms(1), of "''scripts''" "the s"] have "a = Unmodelled"
        by (auto simp: assign_def split: json.splits if_splits)
      with Inl s True that(2) show ?thesis by (simp add: replace_scripts_def)
    next
      case (Inr pj1)
      with s True that(1) show ?thesis by (auto simp: replace_scripts_def)
    qed
  qed
qed

lemma apply_config_cfg_usable:
  assumes pre: "assign Sloppy pj0 k0 v0 = Inr pj"
      and u: "usable_json rt (disk w) p = Some cfg"
      and run: "apply_config_cfg rt p b pj w = Inr (pj', w1)"
  shows "w1 = w\<lparr>disk := AList.delete p (disk w)\<rparr> \<and>
         (case backend_entry rt (disk w) p b of
            None \<Rightarrow> pj' = pj
          | Some entry \<Rightarrow>
              (\<exists>pj1. replace_scripts pj entry = Inr pj1 \<and>
                 merge_properties Sloppy (\<lambda>key. key = ''scripts'') pj1
                   (spread_properties (Some entry)) = Inr pj'))"
proof -
  from u obtain content c where t: "readFileSync (disk w) p = Inr content"
    "JSON_parse rt content = Some cfg" "cfg \<noteq> JNull" and c: "lookup (disk w) p = Some (File c)"
    by (rule usable_parts)
  from u t(3) obtain bc where bc: "get_property cfg (backend_id b) = Inr bc"
    and be: "backend_entry rt (disk w) p b = (if truthy bc then bc else None)"
    by (rule entry_of_usable)
  show ?thesis
  proof (cases "truthy bc")
    case False
    with run t bc c be show ?thesis
      by (auto simp: apply_config_cfg_def unlink_file)
  next
    case True
    then obtain entry where e0: "bc = Some entry" by (cases bc) auto
    with True have "entry \<noteq> JNull" by auto
    note e = e0 this
    from pre e(2) show ?thesis
    proof (rule replace_scripts_result)
      assume "replace_scripts pj entry = Inl Unmodelled"
      with run t bc c True e show ?thesis by (simp add: apply_config_cfg_def)
    next
      fix pj1
      assume r: "replace_scripts pj entry = Inr pj1"
        and "assign Sloppy pj0 k0 v0 = Inr pj1 \<or> (\<exists>s. assign Sloppy pj ''scripts'' s = Inr pj1)"
      then have "merge_properties Sloppy (\<lambda>key. key = ''scripts'') pj1
                   (spread_properties (Some entry)) \<noteq> Inl (Throw x)" for x
        using merge_no_throw by blast
      with run t bc c True e r be show ?thesis
        by (auto simp: apply_config_cfg_def unlink_file split: sum.splits abort.splits)
    qed
  qed
qed

lemma updatePackageJson_esm_success:
  assumes run: "updatePackageJson_esm rt targetDir appName b w = (Inr (), w')"
      and ex: "existsSync (disk w) (targetDir @ [''package.json''])"
  obtains content pj0 pj1 pj2 w1 where
    "readFileSync (disk w) (targetDir @ [''package.json'']) = Inr content"
    "JSON_parse rt content = Some pj0"
    "assign Strict pj0 ''name'' (JStr appName) = Inr pj1"
    "(if existsSync (disk w) (targetDir @ [''package-custom.json''])
      then apply_custom_esm rt (targetDir @ [''package-custom.json'']) b pj1 w
      else Inr (pj1, w)) = Inr (pj2, w1)"
    "writeFileSync (disk w1) (targetDir @ [''package.json'']) (JSON_stringify rt pj2) = Inr (disk w')"
    "printed w' = printed w1"
  using assms
  by (auto simp: updatePackageJson_esm_def Let_def split: sum.splits option.splits prod.splits)

lemma updatePackageJson_cfg_success:
  assumes run: "updatePackageJson_cfg rt targetDir appName b w = (Inr (), w')"
      and ex: "existsSync (disk w) (targetDir @ [''package.json''])"
  obtains content pj0 pj1 pj2 w1 where
    "readFileSync (disk w) (targetDir @ [''package.json'']) = Inr content"
    "JSON_parse rt content = Some pj0"
    "assign Sloppy pj0 ''name'' (JStr appName) = Inr pj1"
    "(if existsSync (disk w) (targetDir @ [''package-config.json''])
      then apply_config_cfg rt (targetDir @ [''package-config.json'']) b pj1 w
      else Inr (pj1, w)) = Inr (pj2, w1)"
    "writeFileSync (disk w1) (targetDir @ [''package.json'']) (JSON_stringify rt pj2) = Inr (disk w')"
    "printed w' = printed w1"
  using assms
  by (auto simp: updatePackageJson_cfg_def Let_def split: sum.splits option.splits prod.splits)

text \<open>
  Claim C4, as amended. Let the side-file and the manifest exist when the manifest
  patcher starts, and let the patcher complete. If the side-file is read and parsed to a
  value other than \<^verbatim>\<open>null\<close>, it is absent when the patcher finishes and no warning is
  printed. If reading or parsing it fails, or it is \<^verbatim>\<open>null\<close>, the failure is downgraded to
  the warning and the side-file is left in place, as it was.
\<close>

theorem C4_side_file_removed_when_usable:
  assumes side: "existsSync (disk w) side" and pkg: "existsSync (disk w) (targetDir @ [''package.json''])"
      and run: "side = targetDir @ [''package-custom.json'']
                  \<and> updatePackageJson_esm rt targetDir appName b w = (Inr (), w')
                \<or> side = targetDir @ [''package-config.json'']
                  \<and> updatePackageJson_cfg rt targetDir appName b w = (Inr (), w')"
  shows "case usable_json rt (disk w) side of
           Some packageConfig \<Rightarrow> \<not> existsSync (disk w') side \<and> printed w' = printed w
         | None \<Rightarrow> lookup (disk w') side = lookup (disk w) side
                   \<and> printed w' = printed w @ [WarnPackageConfig]"
proof -
  from run obtain pj1 pj2 w1 where
    ap: "(usable_json rt (disk w) side = None \<and> w1 = print WarnPackageConfig w)
         \<or> (usable_json rt (disk w) side \<noteq> None \<and> w1 = w\<lparr>disk := AList.delete side (disk w)\<rparr>)"
    and wr: "writeFileSync (disk w1) (targetDir @ [''package.json'']) (JSON_stringify rt pj2) = Inr (disk w')"
    and pr: "printed w' = printed w1"
    and ne: "side \<noteq> targetDir @ [''package.json'']"
  proof (elim disjE conjE)
    assume s: "side = targetDir @ [''package-custom.json'']"
      and r: "updatePackageJson_esm rt targetDir appName b w = (Inr (), w')"
    from r pkg obtain content pj0 pj1 pj2 w1 where
      a: "assign Strict pj0 ''name'' (JStr appName) = Inr pj1"
      and ap: "(if existsSync (disk w) (targetDir @ [''package-custom.json''])
                then apply_custom_esm rt (targetDir @ [''package-custom.json'']) b pj1 w
                else Inr (pj1, w)) = Inr (pj2, w1)"
      and wr: "writeFileSync (disk w1) (targetDir @ [''package.json'']) (JSON_stringify rt pj2) = Inr (disk w')"
      and pr: "printed w' = printed w1"
      by (rule updatePackageJson_esm_success)
    from ap side s have ap': "apply_custom_esm rt side b pj1 w = Inr (pj2, w1)" by simp
    have "(usable_json rt (disk w) side = None \<and> w1 = print WarnPackageConfig w)
         \<or> (usable_json rt (disk w) side \<noteq> None \<and> w1 = w\<lparr>disk := AList.delete side (disk w)\<rparr>)"
    proof (cases "usable_json rt (disk w) side")
      case None
      with ap' apply_custom_esm_unusable [OF None, of b pj1] show ?thesis by simp
    next
      case (Some cfg)
      with apply_custom_esm_usable [OF a Some ap'] show ?thesis by simp
    qed
    with wr pr s that show ?thesis by simp
  next
    assume s: "side = targetDir @ [''package-config.json'']"
      and r: "updatePackageJson_cfg rt targetDir appName b w = (Inr (), w')"
    from r pkg obtain content pj0 pj1 pj2 w1 where
      a: "assign Sloppy pj0 ''name'' (JStr appName) = Inr pj1"
      and ap: "(if existsSync (disk w) (targetDir @ [''package-config.json''])
                then apply_config_cfg rt (targetDir @ [''package-config.json'']) b pj1 w
                else Inr (pj1, w)) = Inr (pj2, w1)"
      and wr: "writeFileSync (disk w1) (targetDir @ [''package.json'']) (JSON_stringify rt pj2) = Inr (disk w')"
      and pr: "printed w' = printed w1"
      by (rule updatePackageJson_cfg_success)
    from ap side s have ap': "apply_config_cfg rt side b pj1 w = Inr (pj2, w1)" by simp
    have "(usable_json rt (disk w) side = None \<and> w1 = print WarnPackageConfig w)
         \<or> (usable_json rt (disk w) side \<noteq> None \<and> w1 = w\<lparr>disk := AList.delete side (disk w)\<rparr>)"
    proof (cases "usable_json rt (disk w) side")
      case None
      with ap' apply_config_cfg_unusable [OF None, of b pj1] show ?thesis by simp
    next
      case (Some cfg)
      with apply_config_cfg_usable [OF a Some ap'] show ?thesis by simp
    qed
    with wr pr s that show ?thesis by simp
  qed
  have same: "lookup (disk w') side = lookup (disk w1) side"
    using writeFileSync_lookup [OF wr, of side] ne by simp
  from run have "side \<noteq> []" by auto
  show ?thesis
  proof (cases "usable_json rt (disk w) side")
    case None
    with ap same pr show ?thesis by (simp add: print_def)
  next
    case (Some cfg)
    with ap have "w1 = w\<lparr>disk := AList.delete side (disk w)\<rparr>" by simp
    with same pr Some \<open>side \<noteq> []\<close> show ?thesis
      by (simp add: existsSync_def lookup_delete)
  qed
qed

theorem C4_side_file_witness:
  "existsSync (disk (copied_world ''1-basic'')) [''home'', ''demo'', ''package-custom.json'']
   \<and> \<not> existsSync
        (disk (snd (updatePackageJson_esm sample_runtime [''home'', ''demo''] ''demo'' R
                      (copied_world ''1-basic''))))
        [''home'', ''demo'', ''package-custom.json'']"
proof -
  let ?w = "copied_world ''1-basic''"
  let ?run = "updatePackageJson_esm sample_runtime [''home'', ''demo''] ''demo'' R ?w"
  have 1: "existsSync (disk ?w) [''home'', ''demo'', ''package-custom.json'']" by code_simp
  have 2: "existsSync (disk ?w) ([''home'', ''demo''] @ [''package.json''])" by code_simp
  have "fst ?run = Inr ()" by code_simp
  then have 3: "[''home'', ''demo'', ''package-custom.json''] = [''home'', ''demo''] @ [''package-custom.json'']
                  \<and> ?run = (Inr (), snd ?run)
                \<or> [''home'', ''demo'', ''package-custom.json''] = [''home'', ''demo''] @ [''package-config.json'']
                  \<and> updatePackageJson_cfg sample_runtime [''home'', ''demo''] ''demo'' R ?w = (Inr (), snd ?run)"
    by (metis append_Cons append_Nil prod.collapse)
  have 4: "usable_json sample_runtime (disk ?w) [''home'', ''demo'', ''package-custom.json'']
             = Some custom_value" by code_simp
  from C4_side_file_removed_when_usable [OF 1 2 3] 1 4 show ?thesis by simp
qed

text \<open>
  The claim C4 as stated fails when the side-file is not JSON: the template
  \<^verbatim>\<open>2-scaffold\<close> is copied with its side-file \<^verbatim>\<open>{\<close>, the patcher completes with a warning,
  the run ends with exit code 0, and the side-file is still in the target.
\<close>

theorem C4_unparsable_side_file_stays_counterexample:
  "existsSync (disk (copied_world ''2-scaffold'')) [''home'', ''demo'', ''package-custom.json'']
   \<and> existsSync (disk (copied_world ''2-scaffold'')) [''home'', ''demo'', ''package.json'']
   \<and> fst (updatePackageJson_esm sample_runtime [''home'', ''demo''] ''demo'' R
             (copied_world ''2-scaffold'')) = Inr ()
   \<and> existsSync
        (disk (snd (updatePackageJson_esm sample_runtime [''home'', ''demo''] ''demo'' R
                      (copied_world ''2-scaffold''))))
        [''home'', ''demo'', ''package-custom.json'']
   \<and> main_esm 10 sample_runtime [''demo''] (sample_world [''2'', ''1'', ''2''])
       = (Exited 0,
          snd (updatePackageJson_esm sample_runtime [''home'', ''demo''] ''demo'' R
                 (copied_world ''2-scaffold''))\<lparr>stdin := []\<rparr>)"
  by code_simp

section \<open>What the patcher writes into the manifest\<close>

lemma merge_properties_untouched:
  assumes "merge_properties mode skipKey (JObj ps) kvs = Inr pj'" "k \<notin> fst ` set kvs \<or> skipKey k"
  shows "\<exists>ps'. pj' = JObj ps' \<and> map_of ps' k = map_of ps k"
  using assms
proof (induction kvs arbitrary: ps)
  case Nil
  then show ?case by auto
next
  case (Cons kv kvs)
  obtain k' v' where kv: "kv = (k', v')" by (cases kv)
  show ?case
  proof (cases "skipKey k'")
    case True
    with Cons.prems kv have "merge_properties mode skipKey (JObj ps) kvs = Inr pj'"
      "k \<notin> fst ` set kvs \<or> skipKey k" by auto
    then show ?thesis by (rule Cons.IH)
  next
    case False
    let ?x = "spread2 (map_of ps k') (Some v')"
    from Cons.prems False kv have
      rest: "merge_properties mode skipKey (JObj (AList.update k' ?x ps)) kvs = Inr pj'"
      by (auto simp: merge_property_def assign_def own_property_def split: if_splits)
    from Cons.prems(2) kv False have "k \<noteq> k'" "k \<notin> fst ` set kvs \<or> skipKey k" by auto
    with Cons.IH [OF rest] show ?thesis by (auto simp: update_conv')
  qed
qed

lemma replace_scripts_object:
  assumes "replace_scripts (JObj ps) entry = Inr pj1"
  shows "\<exists>ps1. pj1 = JObj ps1 \<and> (\<forall>k. k \<noteq> ''scripts'' \<longrightarrow> map_of ps1 k = map_of ps k) \<and>
           (\<forall>s. get_property entry ''scripts'' = Inr (Some s) \<and> truthy (Some s)
                  \<longrightarrow> map_of ps1 ''scripts'' = Some s)"
  using assms
  by (auto simp: replace_scripts_def assign_def update_conv' split: sum.splits if_splits)

lemma patch_manifest_inl_name:
  assumes "patch_manifest_inl appName b (JObj ps0) = Inr pj"
  shows "\<exists>ps. pj = JObj ps \<and> map_of ps ''name'' = Some (JStr appName)"
proof -
  let ?ps2 = "AList.update ''version'' (JStr ''1.0.0'') (AList.update ''name'' (JStr appName) ps0)"
  from assms obtain pj3 where 3: "pin_shiny_react (JObj ?ps2) = Inr pj3"
    and 4: "assign Sloppy pj3 ''scripts'' (JObj (inline_scripts b)) = Inr pj"
    by (auto simp: patch_manifest_inl_def assign_def split: sum.splits)
  from 3 obtain ps3 where "pj3 = JObj ps3" "map_of ps3 ''name'' = Some (JStr appName)"
    by (auto simp: pin_shiny_react_def assign_def get_property_def update_conv'
             split: sum.splits if_splits json.splits)
  with 4 show ?thesis by (auto simp: assign_def update_conv')
qed

text \<open>
  Claim C8, as amended. Let the manifest of the copied target parse to a JSON object and
  let the patcher complete. In the two revisions with a side-file, the name field of the
  written manifest is the project name, verbatim, provided the entry that the side-file
  has for the selected backend (if the patcher gets one) has no \<^verbatim>\<open>name\<close> field; in the
  earliest revision it is the project name always.
\<close>

theorem C8_manifest_name:
  assumes manifest: "readFileSync (disk w) (targetDir @ [''package.json'']) = Inr content"
                    "JSON_parse rt content = Some (JObj ps0)"
      and run: "updatePackageJson_esm rt targetDir appName b w = (Inr (), w')
                  \<and> ''name'' \<notin> fst ` set (spread_properties
                        (backend_entry rt (disk w) (targetDir @ [''package-custom.json'']) b))
                \<or> updatePackageJson_cfg rt targetDir appName b w = (Inr (), w')
                  \<and> ''name'' \<notin> fst ` set (spread_properties
                        (backend_entry rt (disk w) (targetDir @ [''package-config.json'']) b))
                \<or> updatePackageJson_inl rt targetDir appName b w = (Inr (), w')"
  shows "\<exists>ps. lookup (disk w') (targetDir @ [''package.json''])
                 = Some (File (JSON_stringify rt (JObj ps)))
              \<and> map_of ps ''name'' = Some (JStr appName)"
proof -
  let ?pkg = "targetDir @ [''package.json'']"
  let ?ps1 = "AList.update ''name'' (JStr appName) ps0"
  from manifest(1) have ex: "existsSync (disk w) ?pkg"
    by (auto simp: existsSync_def readFileSync_def split: option.splits)
  have n1: "map_of ?ps1 ''name'' = Some (JStr appName)" by (simp add: update_conv')
  from run obtain fs1 ps where "writeFileSync fs1 ?pkg (JSON_stringify rt (JObj ps)) = Inr (disk w')"
    "map_of ps ''name'' = Some (JStr appName)"
  proof (elim disjE conjE)
    assume r: "updatePackageJson_esm rt targetDir appName b w = (Inr (), w')"
      and nn: "''name'' \<notin> fst ` set (spread_properties
                  (backend_entry rt (disk w) (targetDir @ [''package-custom.json'']) b))"
    let ?side = "targetDir @ [''package-custom.json'']"
    from r ex obtain content' pj0 pj1 pj2 w1 where
      c: "readFileSync (disk w) ?pkg = Inr content'" "JSON_parse rt content' = Some pj0"
      and a: "assign Strict pj0 ''name'' (JStr appName) = Inr pj1"
      and ap: "(if existsSync (disk w) ?side then apply_custom_esm rt ?side b pj1 w
                else Inr (pj1, w)) = Inr (pj2, w1)"
      and wr: "writeFileSync (disk w1) ?pkg (JSON_stringify rt pj2) = Inr (disk w')"
      by (rule updatePackageJson_esm_success)
    from c manifest have "pj0 = JObj ps0" by simp
    with a have pj1: "pj1 = JObj ?ps1" by (simp add: assign_def)
    have "\<exists>ps. pj2 = JObj ps \<and> map_of ps ''name'' = Some (JStr appName)"
    proof (cases "existsSync (disk w) ?side")
      case False
      with ap pj1 n1 show ?thesis by auto
    next
      case True
      with ap have ap': "apply_custom_esm rt ?side b pj1 w = Inr (pj2, w1)" by simp
      show ?thesis
      proof (cases "usable_json rt (disk w) ?side")
        case None
        with ap' apply_custom_esm_unusable [OF None, of b pj1] pj1 n1 show ?thesis by auto
      next
        case (Some cfg)
        show ?thesis
        proof (cases "backend_entry rt (disk w) ?side b")
          case None
          with apply_custom_esm_usable [OF a Some ap'] pj1 n1 show ?thesis by auto
        next
          case (Some entry)
          with apply_custom_esm_usable [OF a \<open>usable_json rt (disk w) ?side = Some cfg\<close> ap'] pj1
          have "merge_properties Strict (\<lambda>key. False) (JObj ?ps1) (spread_properties (Some entry))
                  = Inr pj2" by simp
          from merge_properties_untouched [OF this, of "''name''"] nn Some n1
          show ?thesis by auto
        qed
      qed
    qed
    with wr that show ?thesis by blast
  next
    assume r: "updatePackageJson_cfg rt targetDir appName b w = (Inr (), w')"
      and nn: "''name'' \<notin> fst ` set (spread_properties
                  (backend_entry rt (disk w) (targetDir @ [''package-config.json'']) b))"
    let ?side = "targetDir @ [''package-config.json'']"
    from r ex obtain content' pj0 pj1 pj2 w1 where
      c: "readFileSync (disk w) ?pkg = Inr content'" "JSON_parse rt content' = Some pj0"
      and a: "assign Sloppy pj0 ''name'' (JStr appName) = Inr pj1"
      and ap: "(if existsSync (disk w) ?side then apply_config_cfg rt ?side b pj1 w
                else Inr (pj1, w)) = Inr (pj2, w1)"
      and wr: "writeFileSync (disk w1) ?pkg (JSON_stringify rt pj2) = Inr (disk w')"
      by (rule updatePackageJson_cfg_success)
    from c manifest have "pj0 = JObj ps0" by simp
    with a have pj1: "pj1 = JObj ?ps1" by (simp add: assign_def)
    have "\<exists>ps. pj2 = JObj ps \<and> map_of ps ''name'' = Some (JStr appName)"
    proof (cases "existsSync (disk w) ?side")
      case False
      with ap pj1 n1 show ?thesis by auto
    next
      case True
      with ap have ap': "apply_config_cfg rt ?side b pj1 w = Inr (pj2, w1)" by simp
      show ?thesis
      proof (cases "usable_json rt (disk w) ?side")
        case None
        with ap' apply_config_cfg_unusable [OF None, of b pj1] pj1 n1 show ?thesis by auto
      next
        case (Some cfg)
        show ?thesis
        proof (cases "backend_entry rt (disk w) ?side b")
          case None
          with apply_config_cfg_usable [OF a Some ap'] pj1 n1 show ?thesis by auto
        next
          case (Some entry)
          with apply_config_cfg_usable [OF a \<open>usable_json rt (disk w) ?side = Some cfg\<close> ap'] pj1
          obtain pj1' where rs: "replace_scripts (JObj ?ps1) entry = Inr pj1'"
            and mg: "merge_properties Sloppy (\<lambda>key. key = ''scripts'') pj1'
                       (spread_properties (Some entry)) = Inr pj2" by auto
          from replace_scripts_object [OF rs] n1 obtain ps1' where
            p1: "pj1' = JObj ps1'" "map_of ps1' ''name'' = Some (JStr appName)" by auto
          from merge_properties_untouched [of Sloppy _ ps1' _ pj2 "''name''"] mg p1 nn Some
          show ?thesis by auto
        qed
      qed
    qed
    with wr that show ?thesis by blast
  next
    assume r: "updatePackageJson_inl rt targetDir appName b w = (Inr (), w')"
    with ex manifest obtain pj where p: "patch_manifest_inl appName b (JObj ps0) = Inr pj"
      and wr: "writeFileSync (disk w) ?pkg (JSON_stringify rt pj) = Inr (disk w')"
      by (auto simp: updatePackageJson_inl_def Let_def split: sum.splits)
    from patch_manifest_inl_name [OF p] wr that show ?thesis by blast
  qed
  then show ?thesis by (auto simp: writeFileSync_lookup)
qed

theorem C8_manifest_name_witness:
  "\<exists>ps. lookup
          (disk (snd (updatePackageJson_esm sample_runtime [''home'', ''demo''] ''demo'' R
                        (copied_world ''1-basic''))))
          ([''home'', ''demo''] @ [''package.json''])
          = Some (File (JSON_stringify sample_runtime (JObj ps)))
        \<and> map_of ps ''name'' = Some (JStr ''demo'')"
proof -
  let ?w = "copied_world ''1-basic''"
  let ?run = "updatePackageJson_esm sample_runtime [''home'', ''demo''] ''demo'' R ?w"
  have 1: "readFileSync (disk ?w) ([''home'', ''demo''] @ [''package.json'']) = Inr manifest_text"
    by code_simp
  have 2: "JSON_parse sample_runtime manifest_text
             = Some (JObj [(''name'', JStr ''template''), (''scripts'', JObj [(''build'', JStr ''tsc'')])])"
    by code_simp
  have "fst ?run = Inr ()" by code_simp
  then have r: "?run = (Inr (), snd ?run)" by (metis prod.collapse)
  have n: "''name'' \<notin> fst ` set (spread_properties
             (backend_entry sample_runtime (disk ?w) ([''home'', ''demo''] @ [''package-custom.json'']) R))"
    by code_simp
  from r n have 3: "?run = (Inr (), snd ?run)
        \<and> ''name'' \<notin> fst ` set (spread_properties
             (backend_entry sample_runtime (disk ?w) ([''home'', ''demo''] @ [''package-custom.json'']) R))
      \<or> updatePackageJson_cfg sample_runtime [''home'', ''demo''] ''demo'' R ?w = (Inr (), snd ?run)
        \<and> ''name'' \<notin> fst ` set (spread_properties
             (backend_entry sample_runtime (disk ?w) ([''home'', ''demo''] @ [''package-config.json'']) R))
      \<or> updatePackageJson_inl sample_runtime [''home'', ''demo''] ''demo'' R ?w = (Inr (), snd ?run)"
    by blast
  from C8_manifest_name [OF 1 2 3] show ?thesis .
qed

text \<open>
  The claim C8 as stated fails for a side-file whose entry for the selected backend has
  a \<^verbatim>\<open>name\<close> field: the entry \<^verbatim>\<open>{"name":"x"}\<close> for Python is merged over the project name
  \<^verbatim>\<open>demo\<close>, and the completed run leaves the object \<^verbatim>\<open>{"0":"x","1":"e","2":"m","3":"o"}\<close>
  as the name.
\<close>

theorem C8_side_file_name_counterexample:
  "fst (main_esm 10 sample_runtime [''demo''] (sample_world [''1'', ''2'', ''3'', ''2''])) = Exited 0
   \<and> lookup (disk (snd (main_esm 10 sample_runtime [''demo'']
                          (sample_world [''1'', ''2'', ''3'', ''2'']))))
        [''home'', ''demo'', ''package.json'']
      = Some (File (JSON_stringify sample_runtime
          (JObj [(''name'', JObj [(''0'', JStr ''x''), (''1'', JStr ''e''), (''2'', JStr ''m''),
                                  (''3'', JStr ''o'')]),
                 (''scripts'', JObj [(''build'', JStr ''tsc'')])])))"
  by code_simp

text \<open>
  Claim C3, as amended. Let the manifest parse to a JSON object, let the side-file have
  a truthy entry for the selected backend, with each key once, and let the patcher
  complete. In the revision with \<^verbatim>\<open>package-config.json\<close>, a truthy \<^verbatim>\<open>scripts\<close> field of the
  entry becomes the \<^verbatim>\<open>scripts\<close> field of the manifest as it is, and every other field of
  the entry is merged per key: the manifest field becomes the spread of its value after
  the name was set and of the value in the entry. In the revision with
  \<^verbatim>\<open>package-custom.json\<close> every field of the entry, \<^verbatim>\<open>scripts\<close> included, is merged per
  key in this way. The patcher of the model does not complete on a manifest that is an
  array or on an entry with a key \<^verbatim>\<open>__proto__\<close>, so the statement is for entries without
  such a key.
\<close>

theorem C3_scripts_replaced_or_merged:
  assumes manifest: "readFileSync (disk w) (targetDir @ [''package.json'']) = Inr content"
                    "JSON_parse rt content = Some (JObj ps0)"
      and entry: "backend_entry rt (disk w) side b = Some entry"
                 "distinct (map fst (spread_properties (Some entry)))"
  shows "(side = targetDir @ [''package-config.json'']
            \<and> updatePackageJson_cfg rt targetDir appName b w = (Inr (), w')
          \<longrightarrow> (\<exists>ps. lookup (disk w') (targetDir @ [''package.json''])
                        = Some (File (JSON_stringify rt (JObj ps)))
                  \<and> (\<forall>s. get_property entry ''scripts'' = Inr (Some s) \<and> truthy (Some s)
                         \<longrightarrow> map_of ps ''scripts'' = Some s)
                  \<and> (\<forall>(k, v) \<in> set (spread_properties (Some entry)). k \<noteq> ''scripts'' \<longrightarrow>
                        map_of ps k
                          = Some (spread2 (map_of (AList.update ''name'' (JStr appName) ps0) k)
                                    (Some v)))))
       \<and> (side = targetDir @ [''package-custom.json'']
            \<and> updatePackageJson_esm rt targetDir appName b w = (Inr (), w')
          \<longrightarrow> (\<exists>ps. lookup (disk w') (targetDir @ [''package.json''])
                        = Some (File (JSON_stringify rt (JObj ps)))
                  \<and> (\<forall>(k, v) \<in> set (spread_properties (Some entry)).
                        map_of ps k
                          = Some (spread2 (map_of (AList.update ''name'' (JStr appName) ps0) k)
                                    (Some v)))))"
proof (intro conjI impI; elim conjE)
  let ?pkg = "targetDir @ [''package.json'']"
  let ?ps1 = "AList.update ''name'' (JStr appName) ps0"
  from manifest(1) have ex: "existsSync (disk w) ?pkg"
    by (auto simp: existsSync_def readFileSync_def split: option.splits)
  from entry(1) obtain cfg where u: "usable_json rt (disk w) side = Some cfg"
    by (auto simp: backend_entry_def split: option.splits)
  then have sx: "existsSync (disk w) side"
    by (auto simp: usable_json_def existsSync_def readFileSync_def split: option.splits sum.splits)
  {
    assume s: "side = targetDir @ [''package-config.json'']"
      and r: "updatePackageJson_cfg rt targetDir appName b w = (Inr (), w')"
    from r ex obtain content' pj0 pj1 pj2 w1 where
      c: "readFileSync (disk w) ?pkg = Inr content'" "JSON_parse rt content' = Some pj0"
      and a: "assign Sloppy pj0 ''name'' (JStr appName) = Inr pj1"
      and ap: "(if existsSync (disk w) (targetDir @ [''package-config.json''])
                then apply_config_cfg rt (targetDir @ [''package-config.json'']) b pj1 w
                else Inr (pj1, w)) = Inr (pj2, w1)"
      and wr: "writeFileSync (disk w1) ?pkg (JSON_stringify rt pj2) = Inr (disk w')"
      by (rule updatePackageJson_cfg_success)
    from c manifest have "pj0 = JObj ps0" by simp
    with a have pj1: "pj1 = JObj ?ps1" by (simp add: assign_def)
    from ap sx s have ap': "apply_config_cfg rt side b pj1 w = Inr (pj2, w1)" by simp
    from apply_config_cfg_usable [OF a u ap'] entry(1) pj1
    obtain pj1' where rs: "replace_scripts (JObj ?ps1) entry = Inr pj1'"
      and mg: "merge_properties Sloppy (\<lambda>key. key = ''scripts'') pj1'
                 (spread_properties (Some entry)) = Inr pj2" by auto
    from replace_scripts_object [OF rs] obtain ps1' where
      p1: "pj1' = JObj ps1'" "\<forall>k. k \<noteq> ''scripts'' \<longrightarrow> map_of ps1' k = map_of ?ps1 k"
        "\<forall>s. get_property entry ''scripts'' = Inr (Some s) \<and> truthy (Some s)
              \<longrightarrow> map_of ps1' ''scripts'' = Some s" by auto
    from merge_properties_object [of Sloppy _ ps1' _ pj2] mg p1(1) entry(2)
    obtain ps where ps: "pj2 = JObj ps"
      "\<forall>k. k \<notin> fst ` set (spread_properties (Some entry)) \<or> k = ''scripts''
           \<longrightarrow> map_of ps k = map_of ps1' k"
      "\<forall>(k, v) \<in> set (spread_properties (Some entry)). k \<noteq> ''scripts'' \<longrightarrow>
           map_of ps k = Some (spread2 (map_of ps1' k) (Some v))" by blast
    from wr ps(1) have "lookup (disk w') ?pkg = Some (File (JSON_stringify rt (JObj ps)))"
      by (simp add: writeFileSync_lookup)
    moreover from ps(2) p1(3) have "\<forall>s. get_property entry ''scripts'' = Inr (Some s) \<and> truthy (Some s)
              \<longrightarrow> map_of ps ''scripts'' = Some s" by simp
    moreover from ps(3) p1(2) have "\<forall>(k, v) \<in> set (spread_properties (Some entry)). k \<noteq> ''scripts'' \<longrightarrow>
           map_of ps k = Some (spread2 (map_of ?ps1 k) (Some v))" by auto
    ultimately show "\<exists>ps. lookup (disk w') ?pkg = Some (File (JSON_stringify rt (JObj ps)))
                  \<and> (\<forall>s. get_property entry ''scripts'' = Inr (Some s) \<and> truthy (Some s)
                         \<longrightarrow> map_of ps ''scripts'' = Some s)
                  \<and> (\<forall>(k, v) \<in> set (spread_properties (Some entry)). k \<noteq> ''scripts'' \<longrightarrow>
                        map_of ps k = Some (spread2 (map_of ?ps1 k) (Some v)))" by blast
  }
  {
    assume s: "side = targetDir @ [''package-custom.json'']"
      and r: "updatePackageJson_esm rt targetDir appName b w = (Inr (), w')"
    from r ex obtain content' pj0 pj1 pj2 w1 where
      c: "readFileSync (disk w) ?pkg = Inr content'" "JSON_parse rt content' = Some pj0"
      and a: "assign Strict pj0 ''name'' (JStr appName) = Inr pj1"
      and ap: "(if existsSync (disk w) (targetDir @ [''package-custom.json''])
                then apply_custom_esm rt (targetDir @ [''package-custom.json'']) b pj1 w
                else Inr (pj1, w)) = Inr (pj2, w1)"
      and wr: "writeFileSync (disk w1) ?pkg (JSON_stringify rt pj2) = Inr (disk w')"
      by (rule updatePackageJson_esm_success)
    from c manifest have "pj0 = JObj ps0" by simp
    with a have pj1: "pj1 = JObj ?ps1" by (simp add: assign_def)
    from ap sx s have ap': "apply_custom_esm rt side b pj1 w = Inr (pj2, w1)" by simp
    from apply_custom_esm_usable [OF a u ap'] entry(1) pj1
    have mg: "merge_properties Strict (\<lambda>key. False) (JObj ?ps1) (spread_properties (Some entry))
                = Inr pj2" by simp
    from merge_properties_object [OF mg entry(2)]
    obtain ps where ps: "pj2 = JObj ps"
      "\<forall>(k, v) \<in> set (spread_properties (Some entry)).
           map_of ps k = Some (spread2 (map_of ?ps1 k) (Some v))" by auto
    from wr ps(1) have "lookup (disk w') ?pkg = Some (File (JSON_stringify rt (JObj ps)))"
      by (simp add: writeFileSync_lookup)
    with ps(2) show "\<exists>ps. lookup (disk w') ?pkg = Some (File (JSON_stringify rt (JObj ps)))
                  \<and> (\<forall>(k, v) \<in> set (spread_properties (Some entry)).
                        map_of ps k = Some (spread2 (map_of ?ps1 k) (Some v)))" by blast
  }
qed

theorem C3_scripts_witness:
  "\<exists>ps. lookup
          (disk (snd (updatePackageJson_cfg sample_runtime [''home'', ''demo''] ''demo'' R
                        (copied_world ''1-basic''))))
          ([''home'', ''demo''] @ [''package.json''])
          = Some (File (JSON_stringify sample_runtime (JObj ps)))
        \<and> map_of ps ''scripts'' = Some (JObj [(''dev'', JStr ''Rscript r/app.R'')])"
proof -
  let ?w = "copied_world ''1-basic''"
  let ?run = "updatePackageJson_cfg sample_runtime [''home'', ''demo''] ''demo'' R ?w"
  let ?entry = "JObj [(''scripts'', JObj [(''dev'', JStr ''Rscript r/app.R'')])]"
  have 1: "readFileSync (disk ?w) ([''home'', ''demo''] @ [''package.json'']) = Inr manifest_text"
    by code_simp
  have 2: "JSON_parse sample_runtime manifest_text
             = Some (JObj [(''name'', JStr ''template''), (''scripts'', JObj [(''build'', JStr ''tsc'')])])"
    by code_simp
  have 3: "backend_entry sample_runtime (disk ?w) ([''home'', ''demo''] @ [''package-config.json'']) R
             = Some ?entry"
    by code_simp
  have 4: "distinct (map fst (spread_properties (Some ?entry)))" by simp
  have "fst ?run = Inr ()" by code_simp
  then have r: "?run = (Inr (), snd ?run)" by (metis prod.collapse)
  have s: "get_property ?entry ''scripts'' = Inr (Some (JObj [(''dev'', JStr ''Rscript r/app.R'')]))
           \<and> truthy (Some (JObj [(''dev'', JStr ''Rscript r/app.R'')]))"
    by (simp add: get_property_def)
  from C3_scripts_replaced_or_merged [OF 1 2 3 4, of "''demo''" "snd ?run"] r s
  show ?thesis by blast
qed

text \<open>
  The claim C3 as stated fails in the ES-module revision: the entry for R has the
  scripts \<^verbatim>\<open>{"dev": ...}\<close>, and after a completed run the manifest still has its prior
  script \<^verbatim>\<open>build\<close> next to \<^verbatim>\<open>dev\<close>.
\<close>

theorem C3_prior_script_survives_counterexample:
  "fst (main_esm 10 sample_runtime [''demo''] (sample_world [''1'', ''1'', ''2''])) = Exited 0
   \<and> backend_entry sample_runtime (disk (copied_world ''1-basic''))
         [''home'', ''demo'', ''package-custom.json''] R
       = Some (JObj [(''scripts'', JObj [(''dev'', JStr ''Rscript r/app.R'')])])
   \<and> lookup (disk (snd (main_esm 10 sample_runtime [''demo''] (sample_world [''1'', ''1'', ''2'']))))
        [''home'', ''demo'', ''package.json'']
      = Some (File (JSON_stringify sample_runtime
          (JObj [(''name'', JStr ''demo''),
                 (''scripts'', JObj [(''build'', JStr ''tsc''),
                                     (''dev'', JStr ''Rscript r/app.R'')])])))"
  by code_simp

end
